theory Spec2Isabelle
  imports
    Main
    "HOL-Library.AList"
    "HOL-Library.Multiset"
    "HOL-Library.Signed_Division"
    "HOL-Library.Sublist"
    "HOL-Library.Word"
begin

section \<open>Event model (event.hpp)\<close>

text \<open>
  The four event categories of \<^verbatim>\<open>event.hpp\<close>. The scoped enumerators
  \<^verbatim>\<open>UnitEventKind::Start\<close>, \<^verbatim>\<open>ParseEventKind::Start\<close>, ... share their names in C++;
  here each carries its category as a prefix. A \<^verbatim>\<open>tree\<close> is a pointer to a declaration
  node of the host compiler: \<open>None\<close> is \<^verbatim>\<open>NULL_TREE\<close>, and a node carries what the plugin
  reads from it, the macro \<^verbatim>\<open>DECL_PT_UID\<close> and the language hook
  \<^verbatim>\<open>decl_printable_name\<close> (a function of the verbosity). Strings are C strings, so
  they hold no NUL character.
\<close>

datatype UnitEventKind = Unit_Start | Unit_End

record UnitEvent =
  unit_kind :: UnitEventKind

datatype IncludeEventKind = Enter | Leave

record IncludeEvent =
  include_kind :: IncludeEventKind
  filename :: string

datatype ParseEventKind = Parse_Start | PreGenericize | Finish

record tree_node =
  DECL_PT_UID :: "32 word"
  decl_printable_name :: "int \<Rightarrow> string"

type_synonym tree = "tree_node option"

record ParseEvent =
  parse_kind :: ParseEventKind
  parse_decl :: tree
  parse_uid :: "32 word"

datatype PassEventKind = Pass_Start | Pass_End

record PassEvent =
  pass_kind :: PassEventKind
  pass_name :: string
  pass_decl :: tree
  pass_uid :: "32 word"

text \<open>
  \<^verbatim>\<open>EventRecord<Event>\<close>: the time point read from the steady clock when the record
  is built, as a count of nanoseconds, and the event.
\<close>

record 'e EventRecord =
  timestamp :: int
  event :: 'e

section \<open>The tracker (class EventTracker)\<close>

text \<open>
  A \<^verbatim>\<open>Stack<E>\<close> is a \<^verbatim>\<open>std::forward_list\<close>: the head of the list is its front.
  A \<^verbatim>\<open>StackMap<K, E>\<close> is a \<^verbatim>\<open>std::unordered_map\<close> from keys to stacks, modelled
  as an association list; the order of the list stands for the iteration order of the
  container, which C++ leaves unspecified, and no result below depends on it beyond the
  order in which \<open>finish_map\<close> visits the keys.

  The tracker calls \<^verbatim>\<open>on_match\<close> and \<^verbatim>\<open>on_mismatch\<close> of its callback object while it
  works. Every operation below returns the calls it makes, in the order it makes them,
  next to the new tracker state.
\<close>

type_synonym 'e Stack = "'e EventRecord list"

type_synonym ('k, 'e) StackMap = "('k \<times> 'e Stack) list"

datatype 'e cb_call =
    on_match "'e EventRecord" "'e EventRecord"
  | on_mismatch "'e EventRecord"

record EventTracker =
  unit_events :: "UnitEvent Stack"
  include_events :: "IncludeEvent Stack"
  parse_events :: "(32 word, ParseEvent) StackMap"
  genericize_events :: "(32 word, ParseEvent) StackMap"
  pass_events :: "(string, PassEvent) StackMap"

definition EventTracker_init :: EventTracker where
  "EventTracker_init =
     \<lparr>unit_events = [], include_events = [], parse_events = [],
      genericize_events = [], pass_events = []\<rparr>"

text \<open>
  \<^verbatim>\<open>DefaultMatchCallback<E>{cb, end}\<close>, applied to the pointer \<^verbatim>\<open>start\<close>
  (\<open>None\<close> is \<^verbatim>\<open>nullptr\<close>). The second argument is the list of calls made so far.
\<close>

definition DefaultMatchCallback ::
  "'e EventRecord \<Rightarrow> 'e EventRecord option \<Rightarrow> 'e cb_call list \<Rightarrow> 'e cb_call list" where
  "DefaultMatchCallback end start calls =
     (case start of
        Some s \<Rightarrow> calls @ [on_match s end]
      | None \<Rightarrow> calls @ [on_mismatch end])"

text \<open>
  \<^verbatim>\<open>try_match_stack\<close>: the callback \<open>cb\<close> acts on a state \<open>s\<close> of its own (the calls
  made so far and, for the callback of a Finish event, the second keyed collection).
\<close>

definition try_match_stack ::
  "'e Stack \<Rightarrow> ('e EventRecord option \<Rightarrow> 's \<Rightarrow> 's) \<Rightarrow> 's \<Rightarrow> 'e Stack \<times> 's" where
  "try_match_stack stack cb s =
     (case stack of
        front # rest \<Rightarrow> (rest, cb (Some front) s)
      | [] \<Rightarrow> ([], cb None s))"

definition try_match_map ::
  "('k, 'e) StackMap \<Rightarrow> 'k \<Rightarrow> ('e EventRecord option \<Rightarrow> 's \<Rightarrow> 's) \<Rightarrow> 's
     \<Rightarrow> ('k, 'e) StackMap \<times> 's" where
  "try_match_map stack_dict key cb s =
     (case map_of stack_dict key of
        Some stack \<Rightarrow>
          (case try_match_stack stack cb s of
             (stack', s') \<Rightarrow>
               (if stack' = [] then AList.delete key stack_dict
                else AList.update key stack' stack_dict, s'))
      | None \<Rightarrow> (stack_dict, cb None s))"

text \<open>
  \<^verbatim>\<open>stack_dict[key].push_front(record)\<close>: \<^verbatim>\<open>operator[]\<close> inserts an empty stack
  when the key is absent.
\<close>

definition push_front_at ::
  "'k \<Rightarrow> 'e EventRecord \<Rightarrow> ('k, 'e) StackMap \<Rightarrow> ('k, 'e) StackMap" where
  "push_front_at key rcd stack_dict =
     AList.update key
       (rcd # (case map_of stack_dict key of Some stack \<Rightarrow> stack | None \<Rightarrow> []))
       stack_dict"

definition push_event_unit ::
  "UnitEvent EventRecord \<Rightarrow> EventTracker \<Rightarrow> UnitEvent cb_call list \<times> EventTracker" where
  "push_event_unit rcd t =
     (case unit_kind (event rcd) of
        Unit_Start \<Rightarrow> ([], t\<lparr>unit_events := rcd # unit_events t\<rparr>)
      | Unit_End \<Rightarrow>
          (case try_match_stack (unit_events t) (DefaultMatchCallback rcd) [] of
             (stack, calls) \<Rightarrow> (calls, t\<lparr>unit_events := stack\<rparr>)))"

definition push_event_include ::
  "IncludeEvent EventRecord \<Rightarrow> EventTracker
     \<Rightarrow> IncludeEvent cb_call list \<times> EventTracker" where
  "push_event_include rcd t =
     (case include_kind (event rcd) of
        Enter \<Rightarrow> ([], t\<lparr>include_events := rcd # include_events t\<rparr>)
      | Leave \<Rightarrow>
          (case try_match_stack (include_events t) (DefaultMatchCallback rcd) [] of
             (stack, calls) \<Rightarrow> (calls, t\<lparr>include_events := stack\<rparr>)))"

text \<open>
  The callback of a PreGenericize event reports a match and does nothing on
  \<^verbatim>\<open>nullptr\<close>; the callback of a Finish event turns to the genericize collection on
  \<^verbatim>\<open>nullptr\<close>.
\<close>

definition pre_genericize_cb ::
  "ParseEvent EventRecord \<Rightarrow> ParseEvent EventRecord option
     \<Rightarrow> ParseEvent cb_call list \<Rightarrow> ParseEvent cb_call list" where
  "pre_genericize_cb rcd start calls =
     (case start of
        Some s \<Rightarrow> calls @ [on_match s rcd]
      | None \<Rightarrow> calls)"

definition finish_cb ::
  "ParseEvent EventRecord \<Rightarrow> ParseEvent EventRecord option
     \<Rightarrow> ParseEvent cb_call list \<times> (32 word, ParseEvent) StackMap
     \<Rightarrow> ParseEvent cb_call list \<times> (32 word, ParseEvent) StackMap" where
  "finish_cb rcd start s =
     (case s of (calls, genericize) \<Rightarrow>
        (case start of
           Some st \<Rightarrow> (calls @ [on_match st rcd], genericize)
         | None \<Rightarrow>
             (case try_match_map genericize (parse_uid (event rcd))
                     (DefaultMatchCallback rcd) calls of
                (genericize', calls') \<Rightarrow> (calls', genericize'))))"

definition push_event_parse ::
  "ParseEvent EventRecord \<Rightarrow> EventTracker \<Rightarrow> ParseEvent cb_call list \<times> EventTracker" where
  "push_event_parse rcd t =
     (case parse_kind (event rcd) of
        Parse_Start \<Rightarrow>
          ([], t\<lparr>parse_events := push_front_at (parse_uid (event rcd)) rcd (parse_events t)\<rparr>)
      | PreGenericize \<Rightarrow>
          (let genericize = push_front_at (parse_uid (event rcd)) rcd (genericize_events t)
           in case try_match_map (parse_events t) (parse_uid (event rcd))
                     (pre_genericize_cb rcd) [] of
                (parse, calls) \<Rightarrow>
                  (calls, t\<lparr>parse_events := parse, genericize_events := genericize\<rparr>))
      | Finish \<Rightarrow>
          (case try_match_map (parse_events t) (parse_uid (event rcd))
                  (finish_cb rcd) ([], genericize_events t) of
             (parse, calls, genericize) \<Rightarrow>
               (calls, t\<lparr>parse_events := parse, genericize_events := genericize\<rparr>)))"

definition push_event_pass ::
  "PassEvent EventRecord \<Rightarrow> EventTracker \<Rightarrow> PassEvent cb_call list \<times> EventTracker" where
  "push_event_pass rcd t =
     (case pass_kind (event rcd) of
        Pass_Start \<Rightarrow>
          ([], t\<lparr>pass_events := push_front_at (pass_name (event rcd)) rcd (pass_events t)\<rparr>)
      | Pass_End \<Rightarrow>
          (case try_match_map (pass_events t) (pass_name (event rcd))
                  (DefaultMatchCallback rcd) [] of
             (pass, calls) \<Rightarrow> (calls, t\<lparr>pass_events := pass\<rparr>)))"

text \<open>
  \<^verbatim>\<open>push_event\<close> is overloaded on the category of the record. The sum types below
  name the overload: a record of any category, and a callback call of any category.
\<close>

datatype any_record =
    Unit_record "UnitEvent EventRecord"
  | Include_record "IncludeEvent EventRecord"
  | Parse_record "ParseEvent EventRecord"
  | Pass_record "PassEvent EventRecord"

datatype any_call =
    Unit_call "UnitEvent cb_call"
  | Include_call "IncludeEvent cb_call"
  | Parse_call "ParseEvent cb_call"
  | Pass_call "PassEvent cb_call"

fun push_event :: "any_record \<Rightarrow> EventTracker \<Rightarrow> any_call list \<times> EventTracker" where
  "push_event (Unit_record rcd) t =
     (case push_event_unit rcd t of (calls, t') \<Rightarrow> (map Unit_call calls, t'))"
| "push_event (Include_record rcd) t =
     (case push_event_include rcd t of (calls, t') \<Rightarrow> (map Include_call calls, t'))"
| "push_event (Parse_record rcd) t =
     (case push_event_parse rcd t of (calls, t') \<Rightarrow> (map Parse_call calls, t'))"
| "push_event (Pass_record rcd) t =
     (case push_event_pass rcd t of (calls, t') \<Rightarrow> (map Pass_call calls, t'))"

text \<open>Submitting a sequence of records, one after the other.\<close>

fun push_events :: "any_record list \<Rightarrow> EventTracker \<Rightarrow> any_call list \<times> EventTracker" where
  "push_events [] t = ([], t)"
| "push_events (rcd # rcds) t =
     (case push_event rcd t of
        (calls, t') \<Rightarrow>
          (case push_events rcds t' of (calls', t'') \<Rightarrow> (calls @ calls', t'')))"

definition finish_stack :: "'e Stack \<Rightarrow> 'e cb_call list" where
  "finish_stack stack = map on_mismatch stack"

definition finish_map :: "('k, 'e) StackMap \<Rightarrow> 'e cb_call list" where
  "finish_map stack_dict = concat (map (\<lambda>entry. finish_stack (snd entry)) stack_dict)"

definition finish :: "EventTracker \<Rightarrow> any_call list \<times> EventTracker" where
  "finish t =
     (map Unit_call (finish_stack (unit_events t))
      @ map Include_call (finish_stack (include_events t))
      @ map Parse_call (finish_map (parse_events t))
      @ map Parse_call (finish_map (genericize_events t))
      @ map Pass_call (finish_map (pass_events t)),
      t\<lparr>unit_events := [], include_events := [], parse_events := [],
        genericize_events := [], pass_events := []\<rparr>)"

section \<open>The serializer (class TraceWriter)\<close>

text \<open>
  The writer prints to a \<^verbatim>\<open>FILE *\<close>; \<open>file_out\<close> holds the characters printed so
  far. The sink is taken to be open and writable. \<^verbatim>\<open>_slice_count\<close> is a
  \<^verbatim>\<open>size_t\<close> that counts entries and is modelled without its wrap-around at
  \<open>2 ^ 64\<close>. Time points are counts of nanoseconds of the steady clock; they are not
  negative, so that no difference of two of them leaves the range of a 64-bit integer.
\<close>

record TraceWriter =
  file_out :: string
  epoch :: int
  decl_verbosity :: int
  slice_count :: nat
  decl_name_cache :: "32 word \<rightharpoonup> string"

definition fprintf :: "TraceWriter \<Rightarrow> string \<Rightarrow> TraceWriter" where
  "fprintf w text = w\<lparr>file_out := file_out w @ text\<rparr>"

text \<open>
  The conversions of \<^verbatim>\<open>printf\<close> the writer uses: \<^verbatim>\<open>%ld\<close> and \<^verbatim>\<open>%03ld\<close> (a
  minimum field width of three, padded with zeros after the sign).
\<close>

definition digit_char :: "nat \<Rightarrow> char" where
  "digit_char d = ''0123456789'' ! d"

fun decimal :: "nat \<Rightarrow> string" where
  "decimal n = (if n < 10 then [digit_char n] else decimal (n div 10) @ [digit_char (n mod 10)])"

declare decimal.simps [simp del]

definition fmt_ld :: "int \<Rightarrow> string" where
  "fmt_ld v = (if v < 0 then ''-'' @ decimal (nat (- v)) else decimal (nat v))"

definition fmt_03ld :: "int \<Rightarrow> string" where
  "fmt_03ld v =
     (let sign = (if v < 0 then ''-'' else []);
          digits = decimal (nat \<bar>v\<bar>)
      in sign @ replicate (3 - length sign - length digits) (CHR ''0'') @ digits)"

text \<open>
  The constructor and the destructor of \<^verbatim>\<open>SliceWriter\<close> and of \<^verbatim>\<open>ArgWriter\<close>.
  The division and the remainder are those of C++, which truncate towards zero.
\<close>

definition SliceWriter_ctor :: "string \<Rightarrow> int \<Rightarrow> int \<Rightarrow> TraceWriter \<Rightarrow> TraceWriter" where
  \<open>SliceWriter_ctor name start end w =
     (let ts = start - epoch w;
          dur = end - start;
          w1 = (if slice_count w > 0 then fprintf w '','' else w)
                 \<lparr>slice_count := slice_count w + 1\<rparr>;
          w2 = fprintf w1
                 (''{"name":"'' @ name @ ''","ts":'' @ fmt_ld (ts sdiv 1000) @ ''.''
                  @ fmt_03ld (ts smod 1000) @ '','');
          w3 = (if dur > 0
                then fprintf w2
                       (''"ph":"X","dur":'' @ fmt_ld (dur sdiv 1000) @ ''.''
                        @ fmt_03ld (dur smod 1000) @ '','')
                else fprintf w2 ''"ph":"i",'')
      in fprintf w3 ''"pid":0,"tid":0'')\<close>

definition SliceWriter_dtor :: "TraceWriter \<Rightarrow> TraceWriter" where
  "SliceWriter_dtor w = fprintf w ''}''"

definition ArgWriter_ctor :: "TraceWriter \<Rightarrow> TraceWriter" where
  \<open>ArgWriter_ctor w = fprintf w '',"args":{''\<close>

definition ArgWriter_dtor :: "TraceWriter \<Rightarrow> TraceWriter" where
  "ArgWriter_dtor w = fprintf w ''}''"

definition TraceWriter_ctor :: "int \<Rightarrow> int \<Rightarrow> TraceWriter" where
  "TraceWriter_ctor epoch0 verbosity =
     \<lparr>file_out = ''['', epoch = epoch0, decl_verbosity = verbosity, slice_count = 0,
      decl_name_cache = Map.empty\<rparr>"

definition TraceWriter_dtor :: "TraceWriter \<Rightarrow> TraceWriter" where
  "TraceWriter_dtor w = fprintf w '']''"

text \<open>
  \<^verbatim>\<open>get_decl_name\<close>. \<^verbatim>\<open>strcspn\<close> is the length of the longest prefix free of the
  rejected characters; the loop of the source copies that prefix, adds a backslash and
  a quote, and goes on behind the quote it found, until the prefix reaches the end of
  the name.
\<close>

definition strcspn :: "string \<Rightarrow> string \<Rightarrow> nat" where
  "strcspn s reject = length (takeWhile (\<lambda>c. c \<notin> set reject) s)"

function escape_loop :: "string \<Rightarrow> string \<Rightarrow> string" where
  "escape_loop name escaped =
     (let len = strcspn name [CHR 0x22]
      in if len < length name
         then escape_loop (drop (len + 1) name) (escaped @ take len name @ [CHR 0x5C, CHR 0x22])
         else escaped @ take len name)"
  by pat_completeness auto
termination
  by (relation "measure (\<lambda>(name, escaped). length name)") auto

declare escape_loop.simps [simp del]

definition get_decl_name :: "tree_node \<Rightarrow> TraceWriter \<Rightarrow> string \<times> TraceWriter" where
  "get_decl_name decl w =
     (let uid = DECL_PT_UID decl
      in case decl_name_cache w uid of
           None \<Rightarrow>
             (let escaped = escape_loop (decl_printable_name decl (decl_verbosity w)) []
              in (escaped, w\<lparr>decl_name_cache := (decl_name_cache w)(uid \<mapsto> escaped)\<rparr>))
         | Some cached \<Rightarrow> (cached, w))"

text \<open>
  Printing \<^verbatim>\<open>"function":"%s"\<close> with the name of a declaration. The name is looked
  up while the arguments of \<^verbatim>\<open>fprintf\<close> are evaluated.
\<close>

definition fprintf_function :: "tree_node \<Rightarrow> TraceWriter \<Rightarrow> TraceWriter" where
  \<open>fprintf_function decl w =
     (case get_decl_name decl w of
        (name, w') \<Rightarrow> fprintf w' (''"function":"'' @ name @ ''"''))\<close>

text \<open>
  The overloads of \<^verbatim>\<open>write_slice\<close> for a matched pair. The overload for Parse
  events reads the declaration of the start record without a check: on
  \<^verbatim>\<open>NULL_TREE\<close> the behaviour is undefined, which is the result \<open>None\<close>.
\<close>

definition write_slice_unit ::
  "UnitEvent EventRecord \<Rightarrow> UnitEvent EventRecord \<Rightarrow> TraceWriter \<Rightarrow> TraceWriter" where
  "write_slice_unit start end w =
     SliceWriter_dtor (SliceWriter_ctor ''unit'' (timestamp start) (timestamp end) w)"

definition write_slice_include ::
  "IncludeEvent EventRecord \<Rightarrow> IncludeEvent EventRecord \<Rightarrow> TraceWriter \<Rightarrow> TraceWriter" where
  \<open>write_slice_include start end w =
     (let w1 = SliceWriter_ctor ''include'' (timestamp start) (timestamp end) w;
          w2 = ArgWriter_ctor w1;
          w3 = fprintf w2 (''"file":"'' @ filename (event start) @ ''"'')
      in SliceWriter_dtor (ArgWriter_dtor w3))\<close>

definition parse_slice_name :: "ParseEvent EventRecord \<Rightarrow> string" where
  "parse_slice_name start =
     (if parse_kind (event start) = Parse_Start then ''parse'' else ''genericize'')"

definition write_slice_parse ::
  "ParseEvent EventRecord \<Rightarrow> ParseEvent EventRecord \<Rightarrow> TraceWriter
     \<Rightarrow> TraceWriter option" where
  "write_slice_parse start end w =
     (let name = parse_slice_name start;
          w1 = SliceWriter_ctor name (timestamp start) (timestamp end) w;
          w2 = ArgWriter_ctor w1
      in case parse_decl (event start) of
           None \<Rightarrow> None
         | Some decl \<Rightarrow> Some (SliceWriter_dtor (ArgWriter_dtor (fprintf_function decl w2))))"

definition write_slice_pass ::
  "PassEvent EventRecord \<Rightarrow> PassEvent EventRecord \<Rightarrow> TraceWriter \<Rightarrow> TraceWriter" where
  "write_slice_pass start end w =
     (let w1 = SliceWriter_ctor (pass_name (event start)) (timestamp start) (timestamp end) w;
          w2 = (case pass_decl (event start) of
                  Some decl \<Rightarrow> ArgWriter_dtor (fprintf_function decl (ArgWriter_ctor w1))
                | None \<Rightarrow> w1)
      in SliceWriter_dtor w2)"

text \<open>The overloads of \<^verbatim>\<open>write_slice\<close> for a single record that found no partner.\<close>

definition write_marker_unit :: "UnitEvent EventRecord \<Rightarrow> TraceWriter \<Rightarrow> TraceWriter" where
  "write_marker_unit end w =
     (let name = (if unit_kind (event end) = Unit_Start then ''unit (start)'' else ''unit (end)'')
      in SliceWriter_dtor (SliceWriter_ctor name (timestamp end) (timestamp end) w))"

definition write_marker_include ::
  "IncludeEvent EventRecord \<Rightarrow> TraceWriter \<Rightarrow> TraceWriter" where
  \<open>write_marker_include end w =
     (let name = (if include_kind (event end) = Enter
                  then ''include (enter)'' else ''include (leave)'');
          w1 = SliceWriter_ctor name (timestamp end) (timestamp end) w;
          w2 = (if include_kind (event end) = Enter
                then ArgWriter_dtor
                       (fprintf (ArgWriter_ctor w1)
                          (''"file":"'' @ filename (event end) @ ''"''))
                else w1)
      in SliceWriter_dtor w2)\<close>

definition write_marker_parse :: "ParseEvent EventRecord \<Rightarrow> TraceWriter \<Rightarrow> TraceWriter" where
  "write_marker_parse end w =
     (case parse_kind (event end) of
        Parse_Start \<Rightarrow> w
      | PreGenericize \<Rightarrow>
          (let w1 = SliceWriter_ctor ''genericize (start)'' (timestamp end) (timestamp end) w;
               w2 = (case parse_decl (event end) of
                       Some decl \<Rightarrow> ArgWriter_dtor (fprintf_function decl (ArgWriter_ctor w1))
                     | None \<Rightarrow> w1)
           in SliceWriter_dtor w2)
      | Finish \<Rightarrow>
          (let w1 = SliceWriter_ctor ''parse (finish)'' (timestamp end) (timestamp end) w;
               w2 = (case parse_decl (event end) of
                       Some decl \<Rightarrow> ArgWriter_dtor (fprintf_function decl (ArgWriter_ctor w1))
                     | None \<Rightarrow> w1)
           in SliceWriter_dtor w2))"

definition write_marker_pass :: "PassEvent EventRecord \<Rightarrow> TraceWriter \<Rightarrow> TraceWriter" where
  "write_marker_pass end w =
     (let name = pass_name (event end)
                 @ (if pass_kind (event end) = Pass_Start then '' (start)'' else '' (cancelled)'');
          w1 = SliceWriter_ctor name (timestamp end) (timestamp end) w;
          w2 = (case pass_decl (event end) of
                  Some decl \<Rightarrow> ArgWriter_dtor (fprintf_function decl (ArgWriter_ctor w1))
                | None \<Rightarrow> w1)
      in SliceWriter_dtor w2)"

definition write_slice_custom :: "string \<Rightarrow> int \<Rightarrow> int \<Rightarrow> TraceWriter \<Rightarrow> TraceWriter" where
  "write_slice_custom name start end w = SliceWriter_dtor (SliceWriter_ctor name start end w)"

text \<open>
  \<^verbatim>\<open>WriteCallback\<close>: \<^verbatim>\<open>on_match\<close> and \<^verbatim>\<open>on_mismatch\<close> hand the records to the
  overload of \<^verbatim>\<open>write_slice\<close> for their category.
\<close>

fun WriteCallback :: "any_call \<Rightarrow> TraceWriter \<Rightarrow> TraceWriter option" where
  "WriteCallback (Unit_call (on_match start end)) w = Some (write_slice_unit start end w)"
| "WriteCallback (Unit_call (on_mismatch end)) w = Some (write_marker_unit end w)"
| "WriteCallback (Include_call (on_match start end)) w = Some (write_slice_include start end w)"
| "WriteCallback (Include_call (on_mismatch end)) w = Some (write_marker_include end w)"
| "WriteCallback (Parse_call (on_match start end)) w = write_slice_parse start end w"
| "WriteCallback (Parse_call (on_mismatch end)) w = Some (write_marker_parse end w)"
| "WriteCallback (Pass_call (on_match start end)) w = Some (write_slice_pass start end w)"
| "WriteCallback (Pass_call (on_mismatch end)) w = Some (write_marker_pass end w)"

fun write_calls :: "any_call list \<Rightarrow> TraceWriter \<Rightarrow> TraceWriter option" where
  "write_calls [] w = Some w"
| "write_calls (c # cs) w =
     (case WriteCallback c w of None \<Rightarrow> None | Some w' \<Rightarrow> write_calls cs w')"

section \<open>The dump at the end of the run (finish_callback in plugin.cpp)\<close>

text \<open>
  The plugin buffers the records of each category in a global \<^verbatim>\<open>forward_list\<close> with
  \<^verbatim>\<open>push_front\<close>, so that a buffer holds the newest record first.
  \<^verbatim>\<open>finish_callback\<close> reverses the buffers, takes the epoch from their fronts, replays
  the records into a fresh tracker category by category, flushes it, writes the entry
  for the dump itself and leaves its scope: the destructor of the tracker calls
  \<^verbatim>\<open>finish\<close> once more and the destructor of the writer closes the document. The two
  readings of the clock are arguments. The result is the text of the document, or
  \<open>None\<close> where the behaviour is undefined.
\<close>

text \<open>
  \<^verbatim>\<open>EventTimePoint::max()\<close>, for a steady clock that counts nanoseconds in a signed
  64-bit integer; \<^verbatim>\<open>std::min\<close> of the four fronts, where an empty buffer stands
  in with that largest time point.
\<close>

definition EventTimePoint_max :: int where
  "EventTimePoint_max = 2 ^ 63 - 1"

definition front_or_max :: "'e Stack \<Rightarrow> int" where
  "front_or_max trace = (case trace of [] \<Rightarrow> EventTimePoint_max | front # rest \<Rightarrow> timestamp front)"

definition finish_epoch ::
  "UnitEvent Stack \<Rightarrow> IncludeEvent Stack \<Rightarrow> ParseEvent Stack \<Rightarrow> PassEvent Stack \<Rightarrow> int" where
  "finish_epoch trace_unit trace_include trace_parse trace_pass =
     min (min (min (front_or_max (rev trace_unit)) (front_or_max (rev trace_include)))
            (front_or_max (rev trace_parse)))
       (front_or_max (rev trace_pass))"

definition replay ::
  "UnitEvent Stack \<Rightarrow> IncludeEvent Stack \<Rightarrow> ParseEvent Stack \<Rightarrow> PassEvent Stack
     \<Rightarrow> any_record list" where
  "replay trace_unit trace_include trace_parse trace_pass =
     map Unit_record (rev trace_unit) @ map Include_record (rev trace_include)
     @ map Parse_record (rev trace_parse) @ map Pass_record (rev trace_pass)"

definition finish_callback ::
  "UnitEvent Stack \<Rightarrow> IncludeEvent Stack \<Rightarrow> ParseEvent Stack \<Rightarrow> PassEvent Stack
     \<Rightarrow> int \<Rightarrow> int \<Rightarrow> int \<Rightarrow> string option" where
  "finish_callback trace_unit trace_include trace_parse trace_pass verbosity dump_start dump_end =
     (let writer = TraceWriter_ctor
                     (finish_epoch trace_unit trace_include trace_parse trace_pass) verbosity
      in case push_events (replay trace_unit trace_include trace_parse trace_pass)
                EventTracker_init of
           (calls, tracker) \<Rightarrow>
             (case finish tracker of
                (calls', tracker') \<Rightarrow>
                  (case write_calls (calls @ calls') writer of
                     None \<Rightarrow> None
                   | Some w1 \<Rightarrow>
                       (let w2 = write_slice_custom ''plugin_dump'' dump_start dump_end w1
                        in case write_calls (fst (finish tracker')) w2 of
                             None \<Rightarrow> None
                           | Some w3 \<Rightarrow> Some (file_out (TraceWriter_dtor w3))))))"

section \<open>Notions used to state the properties\<close>

text \<open>
  Records as the hooks of \<^verbatim>\<open>plugin.cpp\<close> build them, with the reading of the
  clock as an argument.
\<close>

definition unit_record :: "int \<Rightarrow> UnitEventKind \<Rightarrow> UnitEvent EventRecord" where
  "unit_record ts kind = \<lparr>timestamp = ts, event = \<lparr>unit_kind = kind\<rparr>\<rparr>"

definition include_record :: "int \<Rightarrow> IncludeEventKind \<Rightarrow> string \<Rightarrow> IncludeEvent EventRecord" where
  "include_record ts kind path =
     \<lparr>timestamp = ts, event = \<lparr>include_kind = kind, filename = path\<rparr>\<rparr>"

definition parse_record :: "int \<Rightarrow> ParseEventKind \<Rightarrow> tree_node \<Rightarrow> ParseEvent EventRecord" where
  "parse_record ts kind fndecl =
     \<lparr>timestamp = ts,
      event = \<lparr>parse_kind = kind, parse_decl = Some fndecl, parse_uid = DECL_PT_UID fndecl\<rparr>\<rparr>"

definition pass_record :: "int \<Rightarrow> PassEventKind \<Rightarrow> string \<Rightarrow> PassEvent EventRecord" where
  "pass_record ts kind name =
     \<lparr>timestamp = ts,
      event = \<lparr>pass_kind = kind, pass_name = name, pass_decl = None, pass_uid = - 1\<rparr>\<rparr>"

text \<open>
  A stack of the tracker is named by its category and, for the keyed collections, its
  key. \<open>balanced k w c\<close> holds when \<open>w\<close> is a well-formed sequence of begin and end
  records for the stack \<open>k\<close>, that is, empty or a begin, a well-formed sequence, the
  end of that begin and a well-formed sequence; \<open>c\<close> lists one interval for each pair,
  each end with the begin it closes, in the order of the ends.
\<close>

datatype stack_key = Unit_key | Include_key | Parse_key "32 word" | Pass_key string

inductive balanced :: "stack_key \<Rightarrow> any_record list \<Rightarrow> any_call list \<Rightarrow> bool" where
  balanced_Nil: "balanced k [] []"
| balanced_Unit:
    "balanced Unit_key w1 c1 \<Longrightarrow> balanced Unit_key w2 c2 \<Longrightarrow>
     unit_kind (event b) = Unit_Start \<Longrightarrow> unit_kind (event e) = Unit_End \<Longrightarrow>
     balanced Unit_key (Unit_record b # w1 @ Unit_record e # w2)
       (c1 @ Unit_call (on_match b e) # c2)"
| balanced_Include:
    "balanced Include_key w1 c1 \<Longrightarrow> balanced Include_key w2 c2 \<Longrightarrow>
     include_kind (event b) = Enter \<Longrightarrow> include_kind (event e) = Leave \<Longrightarrow>
     balanced Include_key (Include_record b # w1 @ Include_record e # w2)
       (c1 @ Include_call (on_match b e) # c2)"
| balanced_Parse:
    "balanced (Parse_key k) w1 c1 \<Longrightarrow> balanced (Parse_key k) w2 c2 \<Longrightarrow>
     parse_kind (event b) = Parse_Start \<Longrightarrow> parse_uid (event b) = k \<Longrightarrow>
     parse_kind (event e) = Finish \<Longrightarrow> parse_uid (event e) = k \<Longrightarrow>
     balanced (Parse_key k) (Parse_record b # w1 @ Parse_record e # w2)
       (c1 @ Parse_call (on_match b e) # c2)"
| balanced_Pass:
    "balanced (Pass_key n) w1 c1 \<Longrightarrow> balanced (Pass_key n) w2 c2 \<Longrightarrow>
     pass_kind (event b) = Pass_Start \<Longrightarrow> pass_name (event b) = n \<Longrightarrow>
     pass_kind (event e) = Pass_End \<Longrightarrow> pass_name (event e) = n \<Longrightarrow>
     balanced (Pass_key n) (Pass_record b # w1 @ Pass_record e # w2)
       (c1 @ Pass_call (on_match b e) # c2)"

code_pred balanced .

text \<open>
  \<open>stack_ok k t\<close>: the tracker \<open>t\<close> holds no empty stack for the key \<open>k\<close>. The
  time stamps of a record and of the records of a call, and whether a call reports an
  interval.
\<close>

fun stack_ok :: "stack_key \<Rightarrow> EventTracker \<Rightarrow> bool" where
  "stack_ok Unit_key t = True"
| "stack_ok Include_key t = True"
| "stack_ok (Parse_key k) t = (map_of (parse_events t) k \<noteq> Some [])"
| "stack_ok (Pass_key n) t = (map_of (pass_events t) n \<noteq> Some [])"

fun record_time :: "any_record \<Rightarrow> int" where
  "record_time (Unit_record r) = timestamp r"
| "record_time (Include_record r) = timestamp r"
| "record_time (Parse_record r) = timestamp r"
| "record_time (Pass_record r) = timestamp r"

fun cb_start_time :: "'e cb_call \<Rightarrow> int" where
  "cb_start_time (on_match start end) = timestamp start"
| "cb_start_time (on_mismatch end) = timestamp end"

fun cb_end_time :: "'e cb_call \<Rightarrow> int" where
  "cb_end_time (on_match start end) = timestamp end"
| "cb_end_time (on_mismatch end) = timestamp end"

fun call_start_time :: "any_call \<Rightarrow> int" where
  "call_start_time (Unit_call c) = cb_start_time c"
| "call_start_time (Include_call c) = cb_start_time c"
| "call_start_time (Parse_call c) = cb_start_time c"
| "call_start_time (Pass_call c) = cb_start_time c"

fun call_end_time :: "any_call \<Rightarrow> int" where
  "call_end_time (Unit_call c) = cb_end_time c"
| "call_end_time (Include_call c) = cb_end_time c"
| "call_end_time (Parse_call c) = cb_end_time c"
| "call_end_time (Pass_call c) = cb_end_time c"

fun cb_is_match :: "'e cb_call \<Rightarrow> bool" where
  "cb_is_match (on_match start end) = True"
| "cb_is_match (on_mismatch end) = False"

fun is_match :: "any_call \<Rightarrow> bool" where
  "is_match (Unit_call c) = cb_is_match c"
| "is_match (Include_call c) = cb_is_match c"
| "is_match (Parse_call c) = cb_is_match c"
| "is_match (Pass_call c) = cb_is_match c"

text \<open>
  The begin records are those the tracker pushes onto a stack: a Start, an Enter and,
  in the Parse category, a Start or a PreGenericize. \<open>matched_begins\<close> and
  \<open>mismatched\<close> read the start record of a reported interval and the record of a
  reported mismatch off a callback call. \<open>pending\<close> lists the records a tracker
  holds, \<open>popped\<close> is the record \<open>try_match_map\<close> hands to its callback,
  \<open>unique_keys\<close> says that no key occurs twice in a collection, as in any
  \<^verbatim>\<open>std::unordered_map\<close>, and \<open>no_empty_stack\<close> that no key of a collection is
  mapped to an empty stack.
\<close>

fun is_begin_record :: "any_record \<Rightarrow> bool" where
  "is_begin_record (Unit_record r) = (unit_kind (event r) = Unit_Start)"
| "is_begin_record (Include_record r) = (include_kind (event r) = Enter)"
| "is_begin_record (Parse_record r) = (parse_kind (event r) \<noteq> Finish)"
| "is_begin_record (Pass_record r) = (pass_kind (event r) = Pass_Start)"

fun cb_matched :: "'e cb_call \<Rightarrow> 'e EventRecord list" where
  "cb_matched (on_match start end) = [start]"
| "cb_matched (on_mismatch end) = []"

fun cb_mismatched :: "'e cb_call \<Rightarrow> 'e EventRecord list" where
  "cb_mismatched (on_match start end) = []"
| "cb_mismatched (on_mismatch end) = [end]"

fun matched_begins :: "any_call \<Rightarrow> any_record list" where
  "matched_begins (Unit_call c) = map Unit_record (cb_matched c)"
| "matched_begins (Include_call c) = map Include_record (cb_matched c)"
| "matched_begins (Parse_call c) = map Parse_record (cb_matched c)"
| "matched_begins (Pass_call c) = map Pass_record (cb_matched c)"

fun mismatched :: "any_call \<Rightarrow> any_record list" where
  "mismatched (Unit_call c) = map Unit_record (cb_mismatched c)"
| "mismatched (Include_call c) = map Include_record (cb_mismatched c)"
| "mismatched (Parse_call c) = map Parse_record (cb_mismatched c)"
| "mismatched (Pass_call c) = map Pass_record (cb_mismatched c)"

definition entries :: "('k, 'e) StackMap \<Rightarrow> 'e EventRecord list" where
  "entries stack_dict = concat (map snd stack_dict)"

definition popped :: "('k, 'e) StackMap \<Rightarrow> 'k \<Rightarrow> 'e EventRecord option" where
  "popped stack_dict key =
     (case map_of stack_dict key of Some (front # rest) \<Rightarrow> Some front | _ \<Rightarrow> None)"

definition pending :: "EventTracker \<Rightarrow> any_record list" where
  "pending t =
     map Unit_record (unit_events t) @ map Include_record (include_events t)
     @ map Parse_record (entries (parse_events t))
     @ map Parse_record (entries (genericize_events t))
     @ map Pass_record (entries (pass_events t))"

definition unique_keys :: "EventTracker \<Rightarrow> bool" where
  "unique_keys t \<longleftrightarrow>
     distinct (map fst (parse_events t)) \<and> distinct (map fst (genericize_events t))
     \<and> distinct (map fst (pass_events t))"

definition nonempty_stacks :: "('k, 'e) StackMap \<Rightarrow> bool" where
  "nonempty_stacks stack_dict \<longleftrightarrow> (\<forall>entry \<in> set stack_dict. snd entry \<noteq> [])"

definition no_empty_stack :: "EventTracker \<Rightarrow> bool" where
  "no_empty_stack t \<longleftrightarrow>
     nonempty_stacks (parse_events t) \<and> nonempty_stacks (genericize_events t)
     \<and> nonempty_stacks (pass_events t)"

text \<open>A function declaration for the examples: its uid is 7 and it is printed as \<open>f\<close>.\<close>

definition example_decl :: tree_node where
  "example_decl = \<lparr>DECL_PT_UID = 7, decl_printable_name = (\<lambda>verbosity. ''f'')\<rparr>"

text \<open>
  The fixed-point form of a count of nanoseconds in microseconds: the whole
  microseconds in decimal, a point, and the remainder as exactly three digits.
\<close>

definition three_digits :: "nat \<Rightarrow> string" where
  "three_digits n = [digit_char (n div 100), digit_char (n div 10 mod 10), digit_char (n mod 10)]"

definition fixed_point_us :: "int \<Rightarrow> string" where
  "fixed_point_us v = decimal (nat (v div 1000)) @ ''.'' @ three_digits (nat (v mod 1000))"

text \<open>
  The reader of the body of a JSON string: it takes the text behind the opening quote
  and gives the string read and the text behind the closing quote, or \<open>None\<close> when
  the text is no JSON string. A backslash introduces an escape, a quote ends the
  string, and a control character may not occur unescaped. The escape with four
  hexadecimal digits is left out; the writer never produces it.
\<close>

definition json_escape :: "char \<Rightarrow> char option" where
  "json_escape e =
     (if e = CHR 0x22 then Some (CHR 0x22)
      else if e = CHR 0x5C then Some (CHR 0x5C)
      else if e = CHR ''/'' then Some (CHR ''/'')
      else if e = CHR ''b'' then Some (CHR 0x08)
      else if e = CHR ''f'' then Some (CHR 0x0C)
      else if e = CHR ''n'' then Some (CHR 0x0A)
      else if e = CHR ''r'' then Some (CHR 0x0D)
      else if e = CHR ''t'' then Some (CHR 0x09)
      else None)"

fun json_string_body :: "string \<Rightarrow> (string \<times> string) option" where
  "json_string_body [] = None"
| "json_string_body (c # cs) =
     (if c = CHR 0x22 then Some ([], cs)
      else if c = CHR 0x5C then
        (case cs of
           [] \<Rightarrow> None
         | e # cs' \<Rightarrow>
             (case json_escape e of
                None \<Rightarrow> None
              | Some d \<Rightarrow>
                  (case json_string_body cs' of
                     None \<Rightarrow> None
                   | Some (s, rest) \<Rightarrow> Some (d # s, rest))))
      else if (of_char c :: nat) < 32 then None
      else (case json_string_body cs of
              None \<Rightarrow> None
            | Some (s, rest) \<Rightarrow> Some (c # s, rest)))"

text \<open>
  The call with which the tracker reports a record as a mismatch, and the parts of the
  name and the arguments of the entry the writer makes of it: the name of the intervals
  it is set apart from, the label in parentheses, and the text of the arguments.
\<close>

fun mismatch_call :: "any_record \<Rightarrow> any_call" where
  "mismatch_call (Unit_record r) = Unit_call (on_mismatch r)"
| "mismatch_call (Include_record r) = Include_call (on_mismatch r)"
| "mismatch_call (Parse_record r) = Parse_call (on_mismatch r)"
| "mismatch_call (Pass_record r) = Pass_call (on_mismatch r)"

fun is_parse_start :: "any_record \<Rightarrow> bool" where
  "is_parse_start (Parse_record r) = (parse_kind (event r) = Parse_Start)"
| "is_parse_start (Unit_record r) = False"
| "is_parse_start (Include_record r) = False"
| "is_parse_start (Pass_record r) = False"

fun marker_base :: "any_record \<Rightarrow> string" where
  "marker_base (Unit_record r) = ''unit''"
| "marker_base (Include_record r) = ''include''"
| "marker_base (Parse_record r) =
     (if parse_kind (event r) = Finish then ''parse'' else ''genericize'')"
| "marker_base (Pass_record r) = pass_name (event r)"

fun marker_label :: "any_record \<Rightarrow> string" where
  "marker_label (Unit_record r) =
     (if unit_kind (event r) = Unit_Start then ''start'' else ''end'')"
| "marker_label (Include_record r) =
     (if include_kind (event r) = Enter then ''enter'' else ''leave'')"
| "marker_label (Parse_record r) =
     (if parse_kind (event r) = Finish then ''finish'' else ''start'')"
| "marker_label (Pass_record r) =
     (if pass_kind (event r) = Pass_Start then ''start'' else ''cancelled'')"

definition function_arg :: "tree \<Rightarrow> TraceWriter \<Rightarrow> string" where
  \<open>function_arg decl w =
     (case decl of
        None \<Rightarrow> []
      | Some d \<Rightarrow> '',"args":{"function":"'' @ fst (get_decl_name d w) @ ''"}'')\<close>

fun marker_args :: "any_record \<Rightarrow> TraceWriter \<Rightarrow> string" where
  "marker_args (Unit_record r) w = []"
| \<open>marker_args (Include_record r) w =
     (if include_kind (event r) = Enter
      then '',"args":{"file":"'' @ filename (event r) @ ''"}'' else [])\<close>
| "marker_args (Parse_record r) w = function_arg (parse_decl (event r)) w"
| "marker_args (Pass_record r) w = function_arg (pass_decl (event r)) w"

text \<open>Escaping character by character: a backslash in front of every quote.\<close>

fun escape_quotes :: "string \<Rightarrow> string" where
  "escape_quotes [] = []"
| "escape_quotes (c # cs) =
     (if c = CHR 0x22 then CHR 0x5C # CHR 0x22 # escape_quotes cs else c # escape_quotes cs)"






section \<open>Properties of the tracker\<close>

lemma push_events_append:
  "push_events (xs @ ys) t =
     (case push_events xs t of (c, t') \<Rightarrow>
        (case push_events ys t' of (c', t'') \<Rightarrow> (c @ c', t'')))"
  by (induction xs arbitrary: t) (simp_all split: prod.splits)

lemma pop_after_push:
  assumes "map_of m k \<noteq> Some []"
  shows "try_match_map (push_front_at k b m) k cb s = (m, cb (Some b) s)"
proof (cases "map_of m k")
  case None
  then have "k \<notin> fst ` set m" by (simp add: map_of_eq_None_iff)
  then have "AList.delete k (AList.update k [b] m) = m"
    by (simp add: delete_update_same)
  with None show ?thesis
    by (simp add: try_match_map_def push_front_at_def try_match_stack_def update_conv')
next
  case (Some v)
  with assms have "v \<noteq> []" by auto
  moreover from Some have "AList.update k v m = m" by (rule update_triv)
  ultimately show ?thesis using Some
    by (simp add: try_match_map_def push_front_at_def try_match_stack_def update_conv')
qed

lemma pass_begin_end:
  assumes "pass_kind (event b) = Pass_Start" "pass_name (event b) = n"
    and "pass_kind (event e) = Pass_End" "pass_name (event e) = n"
    and "map_of (pass_events t) n \<noteq> Some []"
  shows "\<exists>t1. push_event (Pass_record b) t = ([], t1) \<and> stack_ok (Pass_key n) t1
           \<and> push_event (Pass_record e) t1 = ([Pass_call (on_match b e)], t)"
  using assms
  by (simp add: push_event_pass_def pop_after_push DefaultMatchCallback_def)
    (simp add: push_front_at_def update_conv')

lemma parse_begin_end:
  assumes "parse_kind (event b) = Parse_Start" "parse_uid (event b) = k"
    and "parse_kind (event e) = Finish" "parse_uid (event e) = k"
    and "map_of (parse_events t) k \<noteq> Some []"
  shows "\<exists>t1. push_event (Parse_record b) t = ([], t1) \<and> stack_ok (Parse_key k) t1
           \<and> push_event (Parse_record e) t1 = ([Parse_call (on_match b e)], t)"
  using assms
  by (simp add: push_event_parse_def pop_after_push finish_cb_def)
    (simp add: push_front_at_def update_conv')

lemma unit_begin_end:
  assumes "unit_kind (event b) = Unit_Start" "unit_kind (event e) = Unit_End"
  shows "\<exists>t1. push_event (Unit_record b) t = ([], t1)
           \<and> push_event (Unit_record e) t1 = ([Unit_call (on_match b e)], t)"
  using assms
  by (simp add: push_event_unit_def try_match_stack_def DefaultMatchCallback_def)

lemma include_begin_end:
  assumes "include_kind (event b) = Enter" "include_kind (event e) = Leave"
  shows "\<exists>t1. push_event (Include_record b) t = ([], t1)
           \<and> push_event (Include_record e) t1 = ([Include_call (on_match b e)], t)"
  using assms
  by (simp add: push_event_include_def try_match_stack_def DefaultMatchCallback_def)

lemma push_events_bracket:
  assumes b: "push_event b t = ([], t1)"
    and w1: "push_events w1 t1 = (c1, t1)"
    and e: "push_event e t1 = ([m], t)"
    and w2: "push_events w2 t = (c2, t)"
  shows "push_events (b # w1 @ e # w2) t = (c1 @ m # c2, t)"
  using assms by (simp add: push_events_append)

lemma balanced_push_events:
  "balanced k w c \<Longrightarrow> stack_ok k t \<Longrightarrow> push_events w t = (c, t)"
proof (induction arbitrary: t rule: balanced.induct)
  case (balanced_Nil k)
  show ?case by simp
next
  case (balanced_Unit w1 c1 w2 c2 b e)
  from unit_begin_end [OF balanced_Unit.hyps(3,4), of t] obtain t1 where
    "push_event (Unit_record b) t = ([], t1)"
    "push_event (Unit_record e) t1 = ([Unit_call (on_match b e)], t)" by blast
  moreover have "push_events w1 t1 = (c1, t1)" by (rule balanced_Unit.IH(1)) simp
  moreover have "push_events w2 t = (c2, t)" by (rule balanced_Unit.IH(2)) simp
  ultimately show ?case by (simp add: push_events_append)
next
  case (balanced_Include w1 c1 w2 c2 b e)
  from include_begin_end [OF balanced_Include.hyps(3,4), of t] obtain t1 where
    "push_event (Include_record b) t = ([], t1)"
    "push_event (Include_record e) t1 = ([Include_call (on_match b e)], t)" by blast
  moreover have "push_events w1 t1 = (c1, t1)" by (rule balanced_Include.IH(1)) simp
  moreover have "push_events w2 t = (c2, t)" by (rule balanced_Include.IH(2)) simp
  ultimately show ?case by (simp add: push_events_append)
next
  case (balanced_Parse k w1 c1 w2 c2 b e)
  from balanced_Parse.prems have ok: "map_of (parse_events t) k \<noteq> Some []" by simp
  from parse_begin_end [OF balanced_Parse.hyps(3-6) ok] obtain t1 where
    "push_event (Parse_record b) t = ([], t1)" "stack_ok (Parse_key k) t1"
    "push_event (Parse_record e) t1 = ([Parse_call (on_match b e)], t)" by blast
  moreover have "push_events w1 t1 = (c1, t1)" by (rule balanced_Parse.IH(1)) fact
  moreover have "push_events w2 t = (c2, t)" by (rule balanced_Parse.IH(2)) fact
  ultimately show ?case by (simp add: push_events_append)
next
  case (balanced_Pass n w1 c1 w2 c2 b e)
  from balanced_Pass.prems have ok: "map_of (pass_events t) n \<noteq> Some []" by simp
  from pass_begin_end [OF balanced_Pass.hyps(3-6) ok] obtain t1 where
    "push_event (Pass_record b) t = ([], t1)" "stack_ok (Pass_key n) t1"
    "push_event (Pass_record e) t1 = ([Pass_call (on_match b e)], t)" by blast
  moreover have "push_events w1 t1 = (c1, t1)" by (rule balanced_Pass.IH(1)) fact
  moreover have "push_events w2 t = (c2, t)" by (rule balanced_Pass.IH(2)) fact
  ultimately show ?case by (simp add: push_events_append)
qed


lemma balanced_times:
  "balanced k w c \<Longrightarrow> sorted (map record_time w) \<Longrightarrow> x \<in> set c \<Longrightarrow>
   is_match x \<and> call_start_time x \<le> call_end_time x"
  by (induction rule: balanced.induct) (auto simp: sorted_append)

lemma balanced_length: "balanced k w c \<Longrightarrow> 2 * length c = length w"
  by (induction rule: balanced.induct) simp_all

lemma finish_init: "finish EventTracker_init = ([], EventTracker_init)"
  by (simp add: finish_def EventTracker_init_def finish_stack_def finish_map_def)

lemma stack_ok_init: "stack_ok k EventTracker_init"
  by (cases k) (simp_all add: EventTracker_init_def)

text \<open>
  C3: a well-formed sequence of begin and end records for one stack, nested or one after
  the other, submitted in chronological order to a tracker that holds no empty stack
  for that key, makes the tracker report exactly the intervals of the pairs, each end
  with the most recent unmatched begin, one interval per pair and none of them a
  mismatch, each with a start time not after its end time, and leaves the tracker as
  it was; from a fresh tracker the flush that follows reports nothing.
\<close>

theorem C3_balanced_pairs_matched_lifo:
  assumes "balanced k w c" and "sorted (map record_time w)" and "stack_ok k t"
  shows "push_events w t = (c, t)
       \<and> (\<forall>x \<in> set c. is_match x \<and> call_start_time x \<le> call_end_time x)
       \<and> 2 * length c = length w
       \<and> fst (finish (snd (push_events w EventTracker_init))) = []"
proof -
  have "push_events w t = (c, t)"
    using assms(1,3) by (rule balanced_push_events)
  moreover have "\<forall>x \<in> set c. is_match x \<and> call_start_time x \<le> call_end_time x"
    using assms(1,2) by (blast dest: balanced_times)
  moreover have "2 * length c = length w"
    using assms(1) by (rule balanced_length)
  moreover have "push_events w EventTracker_init = (c, EventTracker_init)"
    using assms(1) stack_ok_init by (rule balanced_push_events)
  ultimately show ?thesis by (simp add: finish_init)
qed

text \<open>
  Start, Start, End, End for the pass name \<open>ipa\<close>: the first End closes the second
  Start and the second End closes the first Start.
\<close>

theorem C3_balanced_pairs_matched_lifo_witness:
  "push_events
     [Pass_record (pass_record 1 Pass_Start ''ipa''), Pass_record (pass_record 2 Pass_Start ''ipa''),
      Pass_record (pass_record 3 Pass_End ''ipa''), Pass_record (pass_record 4 Pass_End ''ipa'')]
     EventTracker_init
   = ([Pass_call (on_match (pass_record 2 Pass_Start ''ipa'') (pass_record 3 Pass_End ''ipa'')),
       Pass_call (on_match (pass_record 1 Pass_Start ''ipa'') (pass_record 4 Pass_End ''ipa''))],
      EventTracker_init)
   \<and> fst (finish (snd (push_events
        [Pass_record (pass_record 1 Pass_Start ''ipa''), Pass_record (pass_record 2 Pass_Start ''ipa''),
         Pass_record (pass_record 3 Pass_End ''ipa''), Pass_record (pass_record 4 Pass_End ''ipa'')]
        EventTracker_init))) = []"
proof -
  let ?s1 = "pass_record 1 Pass_Start ''ipa''" and ?s2 = "pass_record 2 Pass_Start ''ipa''"
  let ?e1 = "pass_record 3 Pass_End ''ipa''" and ?e2 = "pass_record 4 Pass_End ''ipa''"
  have inner: "balanced (Pass_key ''ipa'') (Pass_record ?s2 # [] @ Pass_record ?e1 # [])
                 ([] @ Pass_call (on_match ?s2 ?e1) # [])"
    by (rule balanced_Pass) (simp_all add: balanced_Nil pass_record_def)
  have "balanced (Pass_key ''ipa'')
          (Pass_record ?s1 # (Pass_record ?s2 # [] @ Pass_record ?e1 # []) @ Pass_record ?e2 # [])
          (([] @ Pass_call (on_match ?s2 ?e1) # []) @ Pass_call (on_match ?s1 ?e2) # [])"
    by (rule balanced_Pass [OF inner]) (simp_all add: balanced_Nil pass_record_def)
  then have b: "balanced (Pass_key ''ipa'')
          [Pass_record ?s1, Pass_record ?s2, Pass_record ?e1, Pass_record ?e2]
          [Pass_call (on_match ?s2 ?e1), Pass_call (on_match ?s1 ?e2)]"
    by simp
  have s: "sorted (map record_time
             [Pass_record ?s1, Pass_record ?s2, Pass_record ?e1, Pass_record ?e2])"
    by (simp add: pass_record_def)
  show ?thesis
    using C3_balanced_pairs_matched_lifo [OF b s stack_ok_init] by blast
qed



lemma entries_update_None:
  "map_of m k = None \<Longrightarrow> mset (entries (AList.update k v m)) = mset (entries m) + mset v"
  by (induction m) (auto simp: entries_def)

lemma entries_update_Some:
  "map_of m k = Some v0 \<Longrightarrow>
   mset (entries (AList.update k v m)) + mset v0 = mset (entries m) + mset v"
  by (induction m) (auto simp: entries_def)

lemma entries_delete_None:
  "map_of m k = None \<Longrightarrow> AList.delete k m = m"
  by (simp add: map_of_eq_None_iff)

lemma entries_delete_Some:
  "distinct (map fst m) \<Longrightarrow> map_of m k = Some v0 \<Longrightarrow>
   mset (entries (AList.delete k m)) + mset v0 = mset (entries m)"
proof (induction m)
  case Nil
  then show ?case by simp
next
  case (Cons p m)
  show ?case
  proof (cases "fst p = k")
    case True
    with Cons.prems have "k \<notin> fst ` set m" "snd p = v0" by auto
    then show ?thesis using True by (cases p) (simp add: entries_def)
  next
    case False
    with Cons show ?thesis by (cases p) (auto simp: entries_def)
  qed
qed

lemma entries_push_front_at:
  "mset (entries (push_front_at k r m)) = mset (entries m) + {#r#}"
proof (cases "map_of m k")
  case None
  then show ?thesis by (simp add: push_front_at_def entries_update_None)
next
  case (Some v0)
  from entries_update_Some [OF Some, of "r # v0"] show ?thesis
    using Some by (simp add: push_front_at_def)
qed

lemma distinct_push_front_at:
  "distinct (map fst m) \<Longrightarrow> distinct (map fst (push_front_at k r m))"
  by (simp add: push_front_at_def distinct_update)

text \<open>What try_match_map does, case by case.\<close>

lemma try_match_map_None:
  "map_of m k = None \<Longrightarrow> try_match_map m k cb s = (m, cb None s)"
  by (simp add: try_match_map_def)

lemma try_match_map_Some:
  "map_of m k = Some (x # xs) \<Longrightarrow>
   try_match_map m k cb s =
     (if xs = [] then AList.delete k m else AList.update k xs m, cb (Some x) s)"
  by (simp add: try_match_map_def try_match_stack_def)

lemma try_match_map_Nil:
  "map_of m k = Some [] \<Longrightarrow> try_match_map m k cb s = (AList.delete k m, cb None s)"
  by (simp add: try_match_map_def try_match_stack_def)

lemma try_match_map_cases:
  obtains (absent) "map_of m k = None" "try_match_map m k cb s = (m, cb None s)"
  | (empty) "map_of m k = Some []" "try_match_map m k cb s = (AList.delete k m, cb None s)"
  | (pop) x xs where "map_of m k = Some (x # xs)"
      "try_match_map m k cb s =
         (if xs = [] then AList.delete k m else AList.update k xs m, cb (Some x) s)"
proof (cases "map_of m k")
  case None
  then show ?thesis by (rule absent) (simp add: try_match_map_None None)
next
  case (Some v)
  show ?thesis
  proof (cases v)
    case Nil
    with Some have *: "map_of m k = Some []" by simp
    show ?thesis by (rule empty [OF * try_match_map_Nil [OF *]])
  next
    case (Cons x xs)
    with Some have *: "map_of m k = Some (x # xs)" by simp
    show ?thesis by (rule pop [OF * try_match_map_Some [OF *]])
  qed
qed

lemma try_match_map_distinct:
  "distinct (map fst m) \<Longrightarrow> distinct (map fst (fst (try_match_map m k cb s)))"
  by (cases rule: try_match_map_cases [of m k cb s]) (simp_all add: distinct_update distinct_delete)

lemma try_match_map_snd: "snd (try_match_map m k cb s) = cb (popped m k) s"
  by (cases rule: try_match_map_cases [of m k cb s]) (simp_all add: popped_def)

lemma try_match_map_entries:
  assumes "distinct (map fst m)"
  shows "mset (entries (fst (try_match_map m k cb s)))
           + mset (case popped m k of Some x \<Rightarrow> [x] | None \<Rightarrow> [])
         = mset (entries m)"
proof (cases rule: try_match_map_cases [of m k cb s])
  case absent
  then show ?thesis by (simp add: popped_def)
next
  case empty
  with entries_delete_Some [OF assms empty(1)] show ?thesis by (simp add: popped_def)
next
  case (pop x xs)
  show ?thesis
  proof (cases "xs = []")
    case True
    with pop entries_delete_Some [OF assms pop(1)] show ?thesis by (simp add: popped_def)
  next
    case False
    with pop entries_update_Some [OF pop(1), of xs] show ?thesis by (simp add: popped_def)
  qed
qed

lemma mset_pending:
  "mset (pending t) =
     image_mset Unit_record (mset (unit_events t))
     + image_mset Include_record (mset (include_events t))
     + image_mset Parse_record (mset (entries (parse_events t)))
     + image_mset Parse_record (mset (entries (genericize_events t)))
     + image_mset Pass_record (mset (entries (pass_events t)))"
  by (simp add: pending_def)

lemma step_unit:
  assumes "push_event_unit r t = (c, t')"
  shows "mset (pending t') + mset (concat (map matched_begins (map Unit_call c)))
           = mset (pending t) + mset (filter is_begin_record [Unit_record r])
         \<and> unique_keys t' = unique_keys t"
  using assms
  by (cases "unit_kind (event r)"; cases "unit_events t")
    (auto simp: push_event_unit_def try_match_stack_def DefaultMatchCallback_def
      mset_pending unique_keys_def)

lemma step_include:
  assumes "push_event_include r t = (c, t')"
  shows "mset (pending t') + mset (concat (map matched_begins (map Include_call c)))
           = mset (pending t) + mset (filter is_begin_record [Include_record r])
         \<and> unique_keys t' = unique_keys t"
  using assms
  by (cases "include_kind (event r)"; cases "include_events t")
    (auto simp: push_event_include_def try_match_stack_def DefaultMatchCallback_def
      mset_pending unique_keys_def)


lemma matched_default:
  "concat (map cb_matched (DefaultMatchCallback r opt [])) =
     (case opt of Some x \<Rightarrow> [x] | None \<Rightarrow> [])"
  by (simp add: DefaultMatchCallback_def split: option.splits)

lemma matched_pre_genericize:
  "concat (map cb_matched (pre_genericize_cb r opt [])) =
     (case opt of Some x \<Rightarrow> [x] | None \<Rightarrow> [])"
  by (simp add: pre_genericize_cb_def split: option.splits)

lemma matched_begins_Pass:
  "concat (map (matched_begins \<circ> Pass_call) c) = map Pass_record (concat (map cb_matched c))"
  by (induction c) simp_all

lemma matched_begins_Parse:
  "concat (map (matched_begins \<circ> Parse_call) c) = map Parse_record (concat (map cb_matched c))"
  by (induction c) simp_all

lemma step_pass:
  assumes u: "unique_keys t" and p: "push_event_pass r t = (c, t')"
  shows "mset (pending t') + mset (concat (map matched_begins (map Pass_call c)))
           = mset (pending t) + mset (filter is_begin_record [Pass_record r])
         \<and> unique_keys t'"
proof (cases "pass_kind (event r)")
  case Pass_Start
  with u p show ?thesis
    by (auto simp: push_event_pass_def mset_pending unique_keys_def entries_push_front_at
        distinct_push_front_at)
next
  case Pass_End
  let ?tm = "try_match_map (pass_events t) (pass_name (event r)) (DefaultMatchCallback r) []"
  from u have d: "distinct (map fst (pass_events t))" by (simp add: unique_keys_def)
  from p Pass_End have c: "c = snd ?tm" and t': "t' = t\<lparr>pass_events := fst ?tm\<rparr>"
    by (simp_all add: push_event_pass_def case_prod_beta)
  have m: "mset (concat (map cb_matched c))
             = mset (case popped (pass_events t) (pass_name (event r)) of
                       Some x \<Rightarrow> [x] | None \<Rightarrow> [])"
    by (simp only: c try_match_map_snd matched_default)
  from try_match_map_entries [OF d, of "pass_name (event r)" "DefaultMatchCallback r" "[]"] m
  have "mset (entries (fst ?tm)) + mset (concat (map cb_matched c)) = mset (entries (pass_events t))"
    by simp
  then have "image_mset Pass_record (mset (entries (fst ?tm)))
               + image_mset Pass_record (mset (concat (map cb_matched c)))
             = image_mset Pass_record (mset (entries (pass_events t)))"
    by (metis image_mset_union)
  moreover have "unique_keys t'"
    using u try_match_map_distinct [OF d] by (simp add: t' unique_keys_def)
  ultimately show ?thesis
    using Pass_End by (simp add: t' mset_pending matched_begins_Pass)
qed


lemma step_parse:
  assumes u: "unique_keys t" and p: "push_event_parse r t = (c, t')"
  shows "mset (pending t') + mset (concat (map matched_begins (map Parse_call c)))
           = mset (pending t) + mset (filter is_begin_record [Parse_record r])
         \<and> unique_keys t'"
proof (cases "parse_kind (event r)")
  case Parse_Start
  with u p show ?thesis
    by (auto simp: push_event_parse_def mset_pending unique_keys_def entries_push_front_at
        distinct_push_front_at)
next
  case PreGenericize
  let ?k = "parse_uid (event r)"
  let ?tm = "try_match_map (parse_events t) ?k (pre_genericize_cb r) []"
  from u have d: "distinct (map fst (parse_events t))"
    and dg: "distinct (map fst (genericize_events t))" by (simp_all add: unique_keys_def)
  from p PreGenericize have c: "c = snd ?tm"
    and t': "t' = t\<lparr>parse_events := fst ?tm,
                     genericize_events := push_front_at ?k r (genericize_events t)\<rparr>"
    by (simp_all add: push_event_parse_def case_prod_beta Let_def)
  have m: "mset (concat (map cb_matched c))
             = mset (case popped (parse_events t) ?k of Some x \<Rightarrow> [x] | None \<Rightarrow> [])"
    by (simp only: c try_match_map_snd matched_pre_genericize)
  from try_match_map_entries [OF d, of ?k "pre_genericize_cb r" "[]"] m
  have "mset (entries (fst ?tm)) + mset (concat (map cb_matched c)) = mset (entries (parse_events t))"
    by simp
  then have "image_mset Parse_record (mset (entries (fst ?tm)))
               + image_mset Parse_record (mset (concat (map cb_matched c)))
             = image_mset Parse_record (mset (entries (parse_events t)))"
    by (metis image_mset_union)
  moreover have "unique_keys t'"
    using u try_match_map_distinct [OF d] distinct_push_front_at [OF dg]
    by (simp add: t' unique_keys_def)
  ultimately show ?thesis
    using PreGenericize
    by (simp add: t' mset_pending matched_begins_Parse entries_push_front_at)
next
  case Finish
  let ?k = "parse_uid (event r)"
  let ?tm = "try_match_map (parse_events t) ?k (finish_cb r) ([], genericize_events t)"
  let ?tg = "try_match_map (genericize_events t) ?k (DefaultMatchCallback r) []"
  from u have d: "distinct (map fst (parse_events t))"
    and dg: "distinct (map fst (genericize_events t))"
    and dp: "distinct (map fst (pass_events t))" by (simp_all add: unique_keys_def)
  from p Finish have c: "c = fst (snd ?tm)"
    and t': "t' = t\<lparr>parse_events := fst ?tm, genericize_events := snd (snd ?tm)\<rparr>"
    by (simp_all add: push_event_parse_def case_prod_beta)
  have s: "snd ?tm = finish_cb r (popped (parse_events t) ?k) ([], genericize_events t)"
    by (rule try_match_map_snd)
  have e: "mset (entries (fst ?tm))
             + mset (case popped (parse_events t) ?k of Some x \<Rightarrow> [x] | None \<Rightarrow> [])
           = mset (entries (parse_events t))"
    by (rule try_match_map_entries [OF d])
  have dt: "distinct (map fst (fst ?tm))" by (rule try_match_map_distinct [OF d])
  show ?thesis
  proof (cases "popped (parse_events t) ?k")
    case (Some x)
    have "finish_cb r (Some x) ([], genericize_events t) = ([on_match x r], genericize_events t)"
      by (simp add: finish_cb_def)
    with s Some have s': "snd ?tm = ([on_match x r], genericize_events t)"
      by (simp only:)
    have cx: "c = [on_match x r]" and g: "snd (snd ?tm) = genericize_events t"
      by (simp_all only: c s' fst_conv snd_conv)
    from e Some have "mset (entries (fst ?tm)) + {#x#} = mset (entries (parse_events t))"
      by simp
    then have "image_mset Parse_record (mset (entries (fst ?tm)) + {#x#})
                 = image_mset Parse_record (mset (entries (parse_events t)))"
      by (simp only:)
    then have "image_mset Parse_record (mset (entries (fst ?tm))) + {#Parse_record x#}
                 = image_mset Parse_record (mset (entries (parse_events t)))"
      by simp
    moreover have "unique_keys t'"
      using dt dg dp by (simp add: t' g unique_keys_def)
    ultimately show ?thesis
      using Finish by (simp add: t' g cx mset_pending)
  next
    case None
    have "finish_cb r None ([], genericize_events t) = (snd ?tg, fst ?tg)"
      by (simp add: finish_cb_def case_prod_beta)
    with s None have s': "snd ?tm = (snd ?tg, fst ?tg)"
      by (simp only:)
    have c': "c = snd ?tg" and g: "snd (snd ?tm) = fst ?tg"
      by (simp_all only: c s' fst_conv snd_conv)
    from e None have e': "mset (entries (fst ?tm)) = mset (entries (parse_events t))" by simp
    have m: "mset (concat (map cb_matched c))
               = mset (case popped (genericize_events t) ?k of Some x \<Rightarrow> [x] | None \<Rightarrow> [])"
      by (simp only: c' try_match_map_snd matched_default)
    from try_match_map_entries [OF dg, of ?k "DefaultMatchCallback r" "[]"] m
    have "mset (entries (fst ?tg)) + mset (concat (map cb_matched c))
            = mset (entries (genericize_events t))"
      by simp
    then have "image_mset Parse_record (mset (entries (fst ?tg)))
                 + image_mset Parse_record (mset (concat (map cb_matched c)))
               = image_mset Parse_record (mset (entries (genericize_events t)))"
      by (metis image_mset_union)
    moreover have "unique_keys t'"
      using dt dp try_match_map_distinct [OF dg] by (simp add: t' g unique_keys_def)
    ultimately show ?thesis
      using Finish e' by (simp add: t' g mset_pending matched_begins_Parse)
  qed
qed


lemma matched_begins_Unit:
  "concat (map (matched_begins \<circ> Unit_call) c) = map Unit_record (concat (map cb_matched c))"
  by (induction c) simp_all

lemma step_any:
  assumes "unique_keys t" and "push_event r t = (c, t')"
  shows "mset (pending t') + mset (concat (map matched_begins c))
           = mset (pending t) + mset (filter is_begin_record [r])
         \<and> unique_keys t'"
proof (cases r)
  case (Unit_record u)
  obtain cu where cu: "push_event_unit u t = (cu, t')" and c: "c = map Unit_call cu"
    using assms(2) Unit_record by (auto split: prod.splits)
  from step_unit [OF cu] assms(1) show ?thesis unfolding c Unit_record by blast
next
  case (Include_record u)
  obtain cu where cu: "push_event_include u t = (cu, t')" and c: "c = map Include_call cu"
    using assms(2) Include_record by (auto split: prod.splits)
  from step_include [OF cu] assms(1) show ?thesis unfolding c Include_record by blast
next
  case (Parse_record u)
  obtain cu where cu: "push_event_parse u t = (cu, t')" and c: "c = map Parse_call cu"
    using assms(2) Parse_record by (auto split: prod.splits)
  from step_parse [OF assms(1) cu] show ?thesis unfolding c Parse_record by blast
next
  case (Pass_record u)
  obtain cu where cu: "push_event_pass u t = (cu, t')" and c: "c = map Pass_call cu"
    using assms(2) Pass_record by (auto split: prod.splits)
  from step_pass [OF assms(1) cu] show ?thesis unfolding c Pass_record by blast
qed

lemma run_invariant:
  "unique_keys t \<Longrightarrow> push_events rs t = (c, t') \<Longrightarrow>
   mset (pending t') + mset (concat (map matched_begins c))
     = mset (pending t) + mset (filter is_begin_record rs)
   \<and> unique_keys t'"
proof (induction rs arbitrary: t c t')
  case Nil
  then show ?case by simp
next
  case (Cons r rs)
  obtain c1 t1 where s1: "push_event r t = (c1, t1)" by (cases "push_event r t")
  obtain c2 t2 where s2: "push_events rs t1 = (c2, t2)" by (cases "push_events rs t1")
  from Cons.prems(2) s1 s2 have c: "c = c1 @ c2" and t': "t' = t2" by simp_all
  from step_any [OF Cons.prems(1) s1]
  have a: "mset (pending t1) + mset (concat (map matched_begins c1))
             = mset (pending t) + mset (filter is_begin_record [r])"
    and u1: "unique_keys t1" by simp_all
  from Cons.IH [OF u1 s2]
  have b: "mset (pending t2) + mset (concat (map matched_begins c2))
             = mset (pending t1) + mset (filter is_begin_record rs)"
    and u2: "unique_keys t2" by simp_all
  have "mset (pending t2) + mset (concat (map matched_begins (c1 @ c2)))
          = (mset (pending t2) + mset (concat (map matched_begins c2)))
            + mset (concat (map matched_begins c1))"
    by simp
  also have "\<dots> = (mset (pending t1) + mset (concat (map matched_begins c1)))
                    + mset (filter is_begin_record rs)"
    by (simp only: b) simp
  also have "\<dots> = mset (pending t) + mset (filter is_begin_record [r])
                    + mset (filter is_begin_record rs)"
    by (simp only: a)
  also have "\<dots> = mset (pending t) + mset (filter is_begin_record (r # rs))"
    by simp
  finally show ?case using u2 by (simp add: c t')
qed

lemma finish_map_entries: "finish_map m = map on_mismatch (entries m)"
  by (induction m) (simp_all add: finish_map_def finish_stack_def entries_def)

lemma mismatched_finish: "concat (map mismatched (fst (finish t))) = pending t"
proof -
  have u: "concat (map mismatched (map Unit_call (map on_mismatch xs))) = map Unit_record xs" for xs
    by (induction xs) simp_all
  have i: "concat (map mismatched (map Include_call (map on_mismatch xs))) = map Include_record xs" for xs
    by (induction xs) simp_all
  have p: "concat (map mismatched (map Parse_call (map on_mismatch xs))) = map Parse_record xs" for xs
    by (induction xs) simp_all
  have s: "concat (map mismatched (map Pass_call (map on_mismatch xs))) = map Pass_record xs" for xs
    by (induction xs) simp_all
  show ?thesis
    by (simp only: finish_def fst_conv finish_map_entries finish_stack_def map_append
        concat_append u i p s pending_def)
qed

lemma finish_no_match: "x \<in> set (fst (finish t)) \<Longrightarrow> \<not> is_match x"
  by (auto simp: finish_def finish_map_entries finish_stack_def)

lemma finish_empties: "snd (finish t) = EventTracker_init"
  by (simp add: finish_def EventTracker_init_def)

lemma unique_keys_init: "unique_keys EventTracker_init"
  by (simp add: unique_keys_def EventTracker_init_def)

lemma pending_init: "pending EventTracker_init = []"
  by (simp add: pending_def EventTracker_init_def entries_def)

text \<open>
  C4: after any sequence of records submitted to a fresh tracker, the flush reports
  mismatches only, and the records it reports are exactly the begin records submitted
  that no interval reported so far starts with, each as often as it is left over; the
  flush of any tracker leaves every stack and every keyed collection empty, and a
  second flush reports nothing and changes nothing.
\<close>

theorem C4_flush_reports_dangling_begins:
  "(\<forall>x \<in> set (fst (finish (snd (push_events evs EventTracker_init)))). \<not> is_match x)
   \<and> mset (concat (map mismatched (fst (finish (snd (push_events evs EventTracker_init))))))
       = mset (filter is_begin_record evs)
         - mset (concat (map matched_begins (fst (push_events evs EventTracker_init))))
   \<and> snd (finish t) = EventTracker_init
   \<and> finish (snd (finish t)) = ([], snd (finish t))"
proof -
  obtain c t' where r: "push_events evs EventTracker_init = (c, t')"
    by (cases "push_events evs EventTracker_init")
  from run_invariant [OF unique_keys_init r]
  have "mset (pending t') + mset (concat (map matched_begins c))
          = mset (filter is_begin_record evs)"
    by (simp add: pending_init)
  then have "mset (pending t')
               = mset (filter is_begin_record evs) - mset (concat (map matched_begins c))"
    by (metis add_diff_cancel_right')
  then show ?thesis
    by (simp add: r mismatched_finish finish_no_match finish_empties finish_init)
qed


text \<open>
  Two passes start, one of them ends, and a unit starts: the flush reports the open
  unit and the open pass.
\<close>

theorem C4_flush_reports_dangling_begins_witness:
  "fst (finish (snd (push_events
       [Pass_record (pass_record 1 Pass_Start ''a''), Pass_record (pass_record 2 Pass_Start ''b''),
        Pass_record (pass_record 3 Pass_End ''a''), Unit_record (unit_record 4 Unit_Start)]
       EventTracker_init)))
     = [Unit_call (on_mismatch (unit_record 4 Unit_Start)),
        Pass_call (on_mismatch (pass_record 2 Pass_Start ''b''))]
   \<and> mset (concat (map mismatched (fst (finish (snd (push_events
       [Pass_record (pass_record 1 Pass_Start ''a''), Pass_record (pass_record 2 Pass_Start ''b''),
        Pass_record (pass_record 3 Pass_End ''a''), Unit_record (unit_record 4 Unit_Start)]
       EventTracker_init))))))
     = mset (filter is_begin_record
       [Pass_record (pass_record 1 Pass_Start ''a''), Pass_record (pass_record 2 Pass_Start ''b''),
        Pass_record (pass_record 3 Pass_End ''a''), Unit_record (unit_record 4 Unit_Start)])
       - mset (concat (map matched_begins (fst (push_events
       [Pass_record (pass_record 1 Pass_Start ''a''), Pass_record (pass_record 2 Pass_Start ''b''),
        Pass_record (pass_record 3 Pass_End ''a''), Unit_record (unit_record 4 Unit_Start)]
       EventTracker_init))))
   \<and> finish (snd (finish (snd (push_events
       [Pass_record (pass_record 1 Pass_Start ''a''), Pass_record (pass_record 2 Pass_Start ''b''),
        Pass_record (pass_record 3 Pass_End ''a''), Unit_record (unit_record 4 Unit_Start)]
       EventTracker_init))))
     = ([], EventTracker_init)"
proof -
  let ?evs = "[Pass_record (pass_record 1 Pass_Start ''a''),
               Pass_record (pass_record 2 Pass_Start ''b''),
               Pass_record (pass_record 3 Pass_End ''a''),
               Unit_record (unit_record 4 Unit_Start)]"
  let ?t = "snd (push_events ?evs EventTracker_init)"
  have e: "fst (finish ?t)
             = [Unit_call (on_mismatch (unit_record 4 Unit_Start)),
                Pass_call (on_mismatch (pass_record 2 Pass_Start ''b''))]"
    by (simp add: push_event_pass_def push_event_unit_def try_match_map_def try_match_stack_def
        push_front_at_def DefaultMatchCallback_def pass_record_def unit_record_def
        EventTracker_init_def finish_def finish_map_def finish_stack_def)
  from C4_flush_reports_dangling_begins [of ?evs ?t]
  have "mset (concat (map mismatched (fst (finish ?t))))
          = mset (filter is_begin_record ?evs)
            - mset (concat (map matched_begins (fst (push_events ?evs EventTracker_init))))"
    and "snd (finish ?t) = EventTracker_init"
    and "finish (snd (finish ?t)) = ([], snd (finish ?t))"
    by blast+
  with e show ?thesis by (simp only:) 
qed

lemma nonempty_update:
  "nonempty_stacks m \<Longrightarrow> v \<noteq> [] \<Longrightarrow> nonempty_stacks (AList.update k v m)"
  by (induction m) (auto simp: nonempty_stacks_def)

lemma nonempty_delete: "nonempty_stacks m \<Longrightarrow> nonempty_stacks (AList.delete k m)"
  by (auto simp: nonempty_stacks_def AList.delete_eq)

lemma nonempty_push_front_at: "nonempty_stacks m \<Longrightarrow> nonempty_stacks (push_front_at k r m)"
  by (simp add: push_front_at_def nonempty_update)

lemma nonempty_try_match_map:
  "nonempty_stacks m \<Longrightarrow> nonempty_stacks (fst (try_match_map m k cb s))"
  by (cases rule: try_match_map_cases [of m k cb s])
    (simp_all add: nonempty_update nonempty_delete)

lemma no_empty_step_parse:
  assumes "no_empty_stack t"
  shows "no_empty_stack (snd (push_event_parse r t))"
proof (cases "parse_kind (event r)")
  case Parse_Start
  with assms show ?thesis
    by (simp add: push_event_parse_def no_empty_stack_def nonempty_push_front_at)
next
  case PreGenericize
  with assms show ?thesis
    by (simp add: push_event_parse_def no_empty_stack_def nonempty_push_front_at
        nonempty_try_match_map case_prod_beta Let_def)
next
  case Finish
  let ?k = "parse_uid (event r)"
  let ?tm = "try_match_map (parse_events t) ?k (finish_cb r) ([], genericize_events t)"
  have s: "snd ?tm = finish_cb r (popped (parse_events t) ?k) ([], genericize_events t)"
    by (rule try_match_map_snd)
  have "nonempty_stacks (snd (finish_cb r opt ([], genericize_events t)))" for opt
    using assms
    by (cases opt)
      (simp_all add: finish_cb_def case_prod_beta no_empty_stack_def nonempty_try_match_map)
  then have "nonempty_stacks (snd (snd ?tm))" by (simp only: s)
  with assms Finish show ?thesis
    by (simp add: push_event_parse_def no_empty_stack_def nonempty_try_match_map case_prod_beta)
qed

lemma no_empty_step_pass:
  assumes "no_empty_stack t"
  shows "no_empty_stack (snd (push_event_pass r t))"
  using assms
  by (cases "pass_kind (event r)")
    (simp_all add: push_event_pass_def no_empty_stack_def nonempty_push_front_at
      nonempty_try_match_map case_prod_beta)

lemma no_empty_step_unit:
  assumes "no_empty_stack t"
  shows "no_empty_stack (snd (push_event_unit r t))"
  using assms
  by (cases "unit_kind (event r)")
    (simp_all add: push_event_unit_def no_empty_stack_def case_prod_beta)

lemma no_empty_step_include:
  assumes "no_empty_stack t"
  shows "no_empty_stack (snd (push_event_include r t))"
  using assms
  by (cases "include_kind (event r)")
    (simp_all add: push_event_include_def no_empty_stack_def case_prod_beta)

lemma no_empty_step: "no_empty_stack t \<Longrightarrow> no_empty_stack (snd (push_event r t))"
  by (cases r)
    (simp_all add: case_prod_beta no_empty_step_unit no_empty_step_include
      no_empty_step_parse no_empty_step_pass)

lemma no_empty_run: "no_empty_stack t \<Longrightarrow> no_empty_stack (snd (push_events rs t))"
proof (induction rs arbitrary: t)
  case Nil
  then show ?case by simp
next
  case (Cons r rs)
  from Cons.IH [OF no_empty_step [OF Cons.prems], of r] show ?case
    by (simp add: case_prod_beta)
qed

lemma no_empty_init: "no_empty_stack EventTracker_init"
  by (simp add: no_empty_stack_def nonempty_stacks_def EventTracker_init_def)

lemma drained_removed:
  "map_of m k = Some [x] \<Longrightarrow> map_of (fst (try_match_map m k cb s)) k = None"
  by (simp add: try_match_map_Some delete_conv')

lemma fresh_stack:
  "map_of m k = None \<Longrightarrow> map_of (push_front_at k r m) k = Some [r]"
  by (simp add: push_front_at_def update_conv')

text \<open>
  C10: a submit operation on a tracker in which no key is mapped to an empty stack
  gives a tracker in which none is, so that it holds after every sequence of records
  submitted to a fresh tracker; and in every keyed collection, a match that takes the
  last record of a key's stack removes the key, after which a push for that key starts
  a stack that holds the pushed record alone.
\<close>

theorem C10_no_empty_stack_persists:
  "(no_empty_stack t \<longrightarrow> no_empty_stack (snd (push_event r t)))
   \<and> no_empty_stack (snd (push_events evs EventTracker_init))
   \<and> (map_of m k = Some [x] \<longrightarrow>
        map_of (fst (try_match_map m k cb s)) k = None
        \<and> map_of (push_front_at k b (fst (try_match_map m k cb s))) k = Some [b])"
  by (simp add: no_empty_step no_empty_run no_empty_init drained_removed fresh_stack)

theorem C10_no_empty_stack_persists_witness:
  "no_empty_stack EventTracker_init
   \<and> no_empty_stack
        (snd (push_event (Pass_record (pass_record 1 Pass_Start ''a'')) EventTracker_init))
   \<and> no_empty_stack (snd (push_events
        [Pass_record (pass_record 1 Pass_Start ''a''), Pass_record (pass_record 2 Pass_End ''a''),
         Pass_record (pass_record 3 Pass_Start ''a'')] EventTracker_init))
   \<and> map_of (fst (try_match_map [(''a'', [pass_record 1 Pass_Start ''a''])] ''a''
                     (DefaultMatchCallback (pass_record 2 Pass_End ''a'')) [])) ''a'' = None
   \<and> map_of (push_front_at ''a'' (pass_record 3 Pass_Start ''a'')
                (fst (try_match_map [(''a'', [pass_record 1 Pass_Start ''a''])] ''a''
                        (DefaultMatchCallback (pass_record 2 Pass_End ''a'')) []))) ''a''
       = Some [pass_record 3 Pass_Start ''a'']"
proof -
  have m: "map_of [(''a'', [pass_record 1 Pass_Start ''a''])] ''a''
             = Some [pass_record 1 Pass_Start ''a'']"
    by simp
  from C10_no_empty_stack_persists
         [of EventTracker_init "Pass_record (pass_record 1 Pass_Start ''a'')"
            "[Pass_record (pass_record 1 Pass_Start ''a''),
              Pass_record (pass_record 2 Pass_End ''a''),
              Pass_record (pass_record 3 Pass_Start ''a'')]"
            "[(''a'', [pass_record 1 Pass_Start ''a''])]" "''a''"
            "pass_record 1 Pass_Start ''a''"
            "DefaultMatchCallback (pass_record 2 Pass_End ''a'')" "[]"
            "pass_record 3 Pass_Start ''a''"]
    no_empty_init m
  show ?thesis by blast
qed

text \<open>
  C9: an End, a Leave, a Finish or a pass End that finds no stack for its key (for a
  Finish, in neither collection) is reported as a mismatch, and nothing else is
  reported; the tracker after it is the tracker before it, so every stack of every
  key and of every category is as it was. By C10 a collection holds no empty stack,
  so that no stack for a key is the same as no pending begin for it.
\<close>

theorem C9_unmatched_end_is_mismatch_and_frame:
  "(unit_kind (event u) = Unit_End \<and> unit_events t = [] \<longrightarrow>
      push_event (Unit_record u) t = ([Unit_call (on_mismatch u)], t))
   \<and> (include_kind (event i) = Leave \<and> include_events t = [] \<longrightarrow>
      push_event (Include_record i) t = ([Include_call (on_mismatch i)], t))
   \<and> (parse_kind (event f) = Finish \<and> map_of (parse_events t) (parse_uid (event f)) = None
        \<and> map_of (genericize_events t) (parse_uid (event f)) = None \<longrightarrow>
      push_event (Parse_record f) t = ([Parse_call (on_mismatch f)], t))
   \<and> (pass_kind (event e) = Pass_End \<and> map_of (pass_events t) (pass_name (event e)) = None \<longrightarrow>
      push_event (Pass_record e) t = ([Pass_call (on_mismatch e)], t))"
  by (simp add: push_event_unit_def push_event_include_def push_event_parse_def
      push_event_pass_def try_match_stack_def try_match_map_None DefaultMatchCallback_def
      finish_cb_def)

theorem C9_unmatched_end_is_mismatch_and_frame_witness:
  "push_event (Unit_record (unit_record 1 Unit_End))
       (snd (push_event (Pass_record (pass_record 0 Pass_Start ''a'')) EventTracker_init))
     = ([Unit_call (on_mismatch (unit_record 1 Unit_End))],
        snd (push_event (Pass_record (pass_record 0 Pass_Start ''a'')) EventTracker_init))
   \<and> push_event (Include_record (include_record 2 Leave []))
       (snd (push_event (Pass_record (pass_record 0 Pass_Start ''a'')) EventTracker_init))
     = ([Include_call (on_mismatch (include_record 2 Leave []))],
        snd (push_event (Pass_record (pass_record 0 Pass_Start ''a'')) EventTracker_init))
   \<and> push_event (Parse_record (parse_record 3 Finish example_decl))
       (snd (push_event (Pass_record (pass_record 0 Pass_Start ''a'')) EventTracker_init))
     = ([Parse_call (on_mismatch (parse_record 3 Finish example_decl))],
        snd (push_event (Pass_record (pass_record 0 Pass_Start ''a'')) EventTracker_init))
   \<and> push_event (Pass_record (pass_record 4 Pass_End ''b''))
       (snd (push_event (Pass_record (pass_record 0 Pass_Start ''a'')) EventTracker_init))
     = ([Pass_call (on_mismatch (pass_record 4 Pass_End ''b''))],
        snd (push_event (Pass_record (pass_record 0 Pass_Start ''a'')) EventTracker_init))"
proof -
  let ?t = "snd (push_event (Pass_record (pass_record 0 Pass_Start ''a'')) EventTracker_init)"
  have t: "?t = EventTracker_init\<lparr>pass_events := [(''a'', [pass_record 0 Pass_Start ''a''])]\<rparr>"
    by (simp add: push_event_pass_def push_front_at_def pass_record_def EventTracker_init_def)
  have h: "unit_kind (event (unit_record 1 Unit_End)) = Unit_End \<and> unit_events ?t = []"
    "include_kind (event (include_record 2 Leave [])) = Leave \<and> include_events ?t = []"
    "parse_kind (event (parse_record 3 Finish example_decl)) = Finish
       \<and> map_of (parse_events ?t) (parse_uid (event (parse_record 3 Finish example_decl))) = None
       \<and> map_of (genericize_events ?t)
            (parse_uid (event (parse_record 3 Finish example_decl))) = None"
    "pass_kind (event (pass_record 4 Pass_End ''b'')) = Pass_End
       \<and> map_of (pass_events ?t) (pass_name (event (pass_record 4 Pass_End ''b''))) = None"
    unfolding t
    by (simp_all add: unit_record_def include_record_def parse_record_def pass_record_def
        EventTracker_init_def)
  from C9_unmatched_end_is_mismatch_and_frame
         [of "unit_record 1 Unit_End" ?t "include_record 2 Leave []"
            "parse_record 3 Finish example_decl" "pass_record 4 Pass_End ''b''"] h
  show ?thesis by blast
qed

text \<open>
  C1: for records Start, PreGenericize and Finish of one key. Submitted in that order
  to a tracker with no stack of pending parse records for the key, they give exactly
  two intervals, Start to PreGenericize, which the writer names \<open>parse\<close>, and
  PreGenericize to Finish, which it names \<open>genericize\<close>. Start and Finish alone
  give exactly one interval, Start to Finish, in any tracker. A Finish that finds its
  key in neither collection is reported as a mismatch and changes nothing. A Finish
  that finds a pending parse record is matched with it and leaves the genericize
  collection as it is: the parse collection is tried first.
\<close>

theorem C1_parse_fallback:
  assumes "parse_kind (event s) = Parse_Start" and "parse_uid (event s) = k"
    and "parse_kind (event p) = PreGenericize" and "parse_uid (event p) = k"
    and "parse_kind (event f) = Finish" and "parse_uid (event f) = k"
  shows "(map_of (parse_events t) k = None \<longrightarrow>
            fst (push_events [Parse_record s, Parse_record p, Parse_record f] t)
              = [Parse_call (on_match s p), Parse_call (on_match p f)]
            \<and> parse_slice_name s = ''parse'' \<and> parse_slice_name p = ''genericize'')
       \<and> fst (push_events [Parse_record s, Parse_record f] t) = [Parse_call (on_match s f)]
       \<and> (map_of (parse_events t) k = None \<and> map_of (genericize_events t) k = None \<longrightarrow>
            push_event (Parse_record f) t = ([Parse_call (on_mismatch f)], t))
       \<and> (\<forall>x xs. map_of (parse_events t) k = Some (x # xs) \<longrightarrow>
            fst (push_event (Parse_record f) t) = [Parse_call (on_match x f)]
            \<and> genericize_events (snd (push_event (Parse_record f) t)) = genericize_events t)"
proof -
  have a: "map_of (parse_events t) k = None \<Longrightarrow>
            fst (push_events [Parse_record s, Parse_record p, Parse_record f] t)
              = [Parse_call (on_match s p), Parse_call (on_match p f)]"
    using assms
    by (simp add: push_event_parse_def try_match_map_def try_match_stack_def push_front_at_def
        DefaultMatchCallback_def pre_genericize_cb_def finish_cb_def update_conv' delete_conv'
        split: option.splits list.splits)
  have b: "fst (push_events [Parse_record s, Parse_record f] t) = [Parse_call (on_match s f)]"
    using assms
    by (simp add: push_event_parse_def try_match_map_def try_match_stack_def push_front_at_def
        DefaultMatchCallback_def pre_genericize_cb_def finish_cb_def update_conv' delete_conv'
        split: option.splits list.splits)
  have c: "map_of (parse_events t) k = None \<Longrightarrow> map_of (genericize_events t) k = None \<Longrightarrow>
            push_event (Parse_record f) t = ([Parse_call (on_mismatch f)], t)"
    using assms
    by (simp add: push_event_parse_def try_match_map_None DefaultMatchCallback_def finish_cb_def)
  have d: "map_of (parse_events t) k = Some (x # xs) \<Longrightarrow>
            fst (push_event (Parse_record f) t) = [Parse_call (on_match x f)]
            \<and> genericize_events (snd (push_event (Parse_record f) t)) = genericize_events t"
    for x xs
    using assms
    by (simp add: push_event_parse_def try_match_map_Some finish_cb_def)
  have n: "parse_slice_name s = ''parse''" "parse_slice_name p = ''genericize''"
    using assms by (simp_all add: parse_slice_name_def)
  from a b c d n show ?thesis by blast
qed

theorem C1_parse_fallback_witness:
  "fst (push_events
       [Parse_record (parse_record 1 Parse_Start example_decl),
        Parse_record (parse_record 2 PreGenericize example_decl),
        Parse_record (parse_record 3 Finish example_decl)] EventTracker_init)
     = [Parse_call (on_match (parse_record 1 Parse_Start example_decl)
                             (parse_record 2 PreGenericize example_decl)),
        Parse_call (on_match (parse_record 2 PreGenericize example_decl)
                             (parse_record 3 Finish example_decl))]
   \<and> fst (push_events
       [Parse_record (parse_record 1 Parse_Start example_decl),
        Parse_record (parse_record 3 Finish example_decl)] EventTracker_init)
     = [Parse_call (on_match (parse_record 1 Parse_Start example_decl)
                             (parse_record 3 Finish example_decl))]
   \<and> push_event (Parse_record (parse_record 3 Finish example_decl)) EventTracker_init
     = ([Parse_call (on_mismatch (parse_record 3 Finish example_decl))], EventTracker_init)
   \<and> fst (push_event (Parse_record (parse_record 3 Finish example_decl))
            (snd (push_event (Parse_record (parse_record 1 Parse_Start example_decl))
                    EventTracker_init)))
     = [Parse_call (on_match (parse_record 1 Parse_Start example_decl)
                             (parse_record 3 Finish example_decl))]"
proof -
  let ?s = "parse_record 1 Parse_Start example_decl"
  let ?p = "parse_record 2 PreGenericize example_decl"
  let ?f = "parse_record 3 Finish example_decl"
  let ?t = "snd (push_event (Parse_record ?s) EventTracker_init)"
  have k: "parse_kind (event ?s) = Parse_Start" "parse_uid (event ?s) = 7"
    "parse_kind (event ?p) = PreGenericize" "parse_uid (event ?p) = 7"
    "parse_kind (event ?f) = Finish" "parse_uid (event ?f) = 7"
    by (simp_all add: parse_record_def example_decl_def)
  have e0: "map_of (parse_events EventTracker_init) 7 = None"
    "map_of (genericize_events EventTracker_init) 7 = None"
    by (simp_all add: EventTracker_init_def)
  have e1: "map_of (parse_events ?t) 7 = Some (?s # [])"
    by (simp add: push_event_parse_def push_front_at_def parse_record_def example_decl_def
        EventTracker_init_def)
  from C1_parse_fallback [OF k, of EventTracker_init] e0
  have a: "fst (push_events [Parse_record ?s, Parse_record ?p, Parse_record ?f] EventTracker_init)
             = [Parse_call (on_match ?s ?p), Parse_call (on_match ?p ?f)]"
    and b: "fst (push_events [Parse_record ?s, Parse_record ?f] EventTracker_init)
             = [Parse_call (on_match ?s ?f)]"
    and c: "push_event (Parse_record ?f) EventTracker_init
             = ([Parse_call (on_mismatch ?f)], EventTracker_init)"
    by blast+
  from C1_parse_fallback [OF k, of ?t] e1
  have d: "fst (push_event (Parse_record ?f) ?t) = [Parse_call (on_match ?s ?f)]"
    by blast
  from a b c d show ?thesis by (intro conjI)
qed

text \<open>
  C2, as the code has it: a PreGenericize record is pushed onto the stack of its key
  in the genericize collection; when the parse collection holds a pending record for
  the key, that record is popped and the interval from it to the PreGenericize record
  is reported; when the parse collection holds no stack for the key, nothing is
  reported, no mismatch either, and the parse collection is left as it is.
\<close>

theorem C2_pre_genericize_amended:
  assumes "parse_kind (event p) = PreGenericize" and "parse_uid (event p) = k"
  shows "map_of (genericize_events (snd (push_event (Parse_record p) t))) k
           = Some (p # (case map_of (genericize_events t) k of Some st \<Rightarrow> st | None \<Rightarrow> []))
       \<and> (\<forall>x xs. map_of (parse_events t) k = Some (x # xs) \<longrightarrow>
            fst (push_event (Parse_record p) t) = [Parse_call (on_match x p)]
            \<and> map_of (parse_events (snd (push_event (Parse_record p) t))) k
                = (if xs = [] then None else Some xs))
       \<and> (map_of (parse_events t) k = None \<longrightarrow>
            fst (push_event (Parse_record p) t) = []
            \<and> parse_events (snd (push_event (Parse_record p) t)) = parse_events t)"
  using assms
  by (simp add: push_event_parse_def try_match_map_Some try_match_map_None pre_genericize_cb_def
      push_front_at_def update_conv' delete_conv' case_prod_beta Let_def)

theorem C2_pre_genericize_amended_witness:
  "map_of (genericize_events
       (snd (push_event (Parse_record (parse_record 5 PreGenericize example_decl))
               EventTracker_init))) 7
     = Some [parse_record 5 PreGenericize example_decl]
   \<and> fst (push_event (Parse_record (parse_record 5 PreGenericize example_decl))
            EventTracker_init) = []
   \<and> fst (push_event (Parse_record (parse_record 5 PreGenericize example_decl))
            (snd (push_event (Parse_record (parse_record 1 Parse_Start example_decl))
                    EventTracker_init)))
     = [Parse_call (on_match (parse_record 1 Parse_Start example_decl)
                             (parse_record 5 PreGenericize example_decl))]
   \<and> map_of (parse_events
       (snd (push_event (Parse_record (parse_record 5 PreGenericize example_decl))
            (snd (push_event (Parse_record (parse_record 1 Parse_Start example_decl))
                    EventTracker_init))))) 7
     = None"
proof -
  let ?s = "parse_record 1 Parse_Start example_decl"
  let ?p = "parse_record 5 PreGenericize example_decl"
  let ?t = "snd (push_event (Parse_record ?s) EventTracker_init)"
  have k: "parse_kind (event ?p) = PreGenericize" "parse_uid (event ?p) = 7"
    by (simp_all add: parse_record_def example_decl_def)
  have e0: "map_of (parse_events EventTracker_init) 7 = None"
    "map_of (genericize_events EventTracker_init) 7 = None"
    by (simp_all add: EventTracker_init_def)
  have e1: "map_of (parse_events ?t) 7 = Some (?s # [])"
    by (simp add: push_event_parse_def push_front_at_def parse_record_def example_decl_def
        EventTracker_init_def)
  from C2_pre_genericize_amended [OF k, of EventTracker_init] e0
  have a: "map_of (genericize_events (snd (push_event (Parse_record ?p) EventTracker_init))) 7
             = Some [?p]"
    and b: "fst (push_event (Parse_record ?p) EventTracker_init) = []"
    by simp_all
  from C2_pre_genericize_amended [OF k, of ?t] e1
  have c: "fst (push_event (Parse_record ?p) ?t) = [Parse_call (on_match ?s ?p)]"
    and d: "map_of (parse_events (snd (push_event (Parse_record ?p) ?t))) 7 = None"
    by simp_all
  from a b c d show ?thesis by (intro conjI)
qed

text \<open>
  C2 as the specification states it fails: a PreGenericize record submitted to a fresh
  tracker, whose parse collection has no entry for the key, is not reported as a
  mismatch; nothing is reported.
\<close>

theorem C2_pre_genericize_counterexample:
  "fst (push_event (Parse_record (parse_record 5 PreGenericize example_decl)) EventTracker_init)
     = []
   \<and> Parse_call (on_mismatch (parse_record 5 PreGenericize example_decl))
       \<notin> set (fst (push_event (Parse_record (parse_record 5 PreGenericize example_decl))
                      EventTracker_init))"
  by (simp add: push_event_parse_def try_match_map_None pre_genericize_cb_def
      parse_record_def EventTracker_init_def Let_def)


section \<open>Properties of the serializer\<close>

lemma decimal_small: "n < 10 \<Longrightarrow> decimal n = [digit_char n]"
  by (simp add: decimal.simps)

lemma decimal_step: "10 \<le> n \<Longrightarrow> decimal n = decimal (n div 10) @ [digit_char (n mod 10)]"
  by (subst decimal.simps) simp

lemma digit_char_0: "digit_char 0 = CHR ''0''"
  by (simp add: digit_char_def)

lemma replicate_two: "replicate 2 c = [c, c]"
  by (simp add: numeral_2_eq_2)

lemma fmt_03ld_three_digits:
  assumes "0 \<le> v" "v < 1000"
  shows "fmt_03ld v = three_digits (nat v)"
proof -
  let ?n = "nat v"
  from assms have n: "?n < 1000" by simp
  consider "?n < 10" | "10 \<le> ?n" "?n < 100" | "100 \<le> ?n" by linarith
  then have "replicate (3 - length (decimal ?n)) (CHR ''0'') @ decimal ?n = three_digits ?n"
  proof cases
    case 1
    then show ?thesis by (simp add: decimal_small three_digits_def digit_char_0 numeral_3_eq_3)
  next
    case 2
    then have "?n div 10 < 10" "?n div 100 = 0" by simp_all
    with 2 show ?thesis
      by (simp add: decimal_step decimal_small three_digits_def digit_char_0)
  next
    case 3
    then have a: "10 \<le> ?n" and b: "10 \<le> ?n div 10" by simp_all
    from n have c: "?n div 100 < 10" by simp
    have d: "?n div 10 div 10 = ?n div 100" by (simp add: div_mult2_eq)
    have "decimal (?n div 10) = decimal (?n div 100) @ [digit_char (?n div 10 mod 10)]"
      using decimal_step [OF b] by (simp only: d)
    then have "decimal ?n
                 = [digit_char (?n div 100), digit_char (?n div 10 mod 10), digit_char (?n mod 10)]"
      using decimal_step [OF a] decimal_small [OF c] by simp
    then show ?thesis by (simp add: three_digits_def)
  qed
  with assms show ?thesis by (simp add: fmt_03ld_def Let_def)
qed

lemma fmt_ld_decimal: "0 \<le> v \<Longrightarrow> fmt_ld v = decimal (nat v)"
  by (simp add: fmt_ld_def)

lemma sdiv_nonneg: "0 \<le> (v::int) \<Longrightarrow> v sdiv 1000 = v div 1000"
  by (simp add: signed_divide_int_def sgn_if)

lemma smod_nonneg: "0 \<le> (v::int) \<Longrightarrow> v smod 1000 = v mod 1000"
  by (simp add: signed_modulo_int_def sgn_if)

lemma fmt_fixed_point:
  assumes "0 \<le> v"
  shows "fmt_ld (v sdiv 1000) @ ''.'' @ fmt_03ld (v smod 1000) = fixed_point_us v"
proof -
  from assms have "0 \<le> v div 1000" "0 \<le> v mod 1000" "v mod 1000 < 1000" by simp_all
  then show ?thesis
    using assms
    by (simp add: sdiv_nonneg smod_nonneg fmt_ld_decimal fmt_03ld_three_digits fixed_point_us_def)
qed

text \<open>
  For an entry that starts at or after the epoch, the time stamp and, when the end is
  after the start, the duration are printed in the fixed-point form.
\<close>

lemma SliceWriter_ctor_fixed_point:
  assumes "epoch w \<le> start"
  shows \<open>file_out (SliceWriter_ctor name start end w) =
     file_out w @ (if slice_count w > 0 then '','' else [])
     @ ''{"name":"'' @ name @ ''","ts":'' @ fixed_point_us (start - epoch w) @ '',''
     @ (if start < end then ''"ph":"X","dur":'' @ fixed_point_us (end - start) @ '',''
        else ''"ph":"i",'')
     @ ''"pid":0,"tid":0''\<close>
proof -
  from assms have ts: "0 \<le> start - epoch w" by simp
  have dur: "start < end \<Longrightarrow> 0 \<le> end - start" by simp
  show ?thesis
    using fmt_fixed_point [OF ts] fmt_fixed_point [OF dur]
    by (simp add: SliceWriter_ctor_def Let_def fprintf_def)
qed


lemma get_decl_name_frame:
  "decl_name_cache w' = decl_name_cache w \<Longrightarrow> decl_verbosity w' = decl_verbosity w \<Longrightarrow>
   fst (get_decl_name d w') = fst (get_decl_name d w)"
  by (simp add: get_decl_name_def Let_def split: option.splits)

lemma get_decl_name_file:
  "file_out (snd (get_decl_name d w)) = file_out w
   \<and> slice_count (snd (get_decl_name d w)) = slice_count w
   \<and> epoch (snd (get_decl_name d w)) = epoch w"
  by (simp add: get_decl_name_def Let_def split: option.splits)

lemma SliceWriter_ctor_frame:
  "decl_name_cache (SliceWriter_ctor n a b w) = decl_name_cache w
   \<and> decl_verbosity (SliceWriter_ctor n a b w) = decl_verbosity w
   \<and> slice_count (SliceWriter_ctor n a b w) = slice_count w + 1
   \<and> epoch (SliceWriter_ctor n a b w) = epoch w"
  by (simp add: SliceWriter_ctor_def Let_def fprintf_def)

lemma SliceWriter_ctor_instant:
  \<open>file_out (SliceWriter_ctor n a a w) =
     file_out w @ (if slice_count w > 0 then '','' else [])
     @ ''{"name":"'' @ n @ ''","ts":'' @ fmt_ld ((a - epoch w) sdiv 1000) @ ''.''
     @ fmt_03ld ((a - epoch w) smod 1000) @ '',"ph":"i","pid":0,"tid":0''\<close>
  by (simp add: SliceWriter_ctor_def Let_def fprintf_def)

lemma function_marker:
  \<open>file_out (SliceWriter_dtor
       (case decl of
          Some d \<Rightarrow> ArgWriter_dtor (fprintf_function d (ArgWriter_ctor (SliceWriter_ctor n a a w)))
        | None \<Rightarrow> SliceWriter_ctor n a a w))
     = file_out (SliceWriter_ctor n a a w) @ function_arg decl w @ ''}''
   \<and> slice_count (SliceWriter_dtor
       (case decl of
          Some d \<Rightarrow> ArgWriter_dtor (fprintf_function d (ArgWriter_ctor (SliceWriter_ctor n a a w)))
        | None \<Rightarrow> SliceWriter_ctor n a a w))
     = slice_count w + 1\<close>
proof (cases decl)
  case None
  then show ?thesis
    by (simp add: SliceWriter_dtor_def fprintf_def function_arg_def SliceWriter_ctor_frame)
next
  case (Some d)
  let ?w2 = "ArgWriter_ctor (SliceWriter_ctor n a a w)"
  have f: "fst (get_decl_name d ?w2) = fst (get_decl_name d w)"
    by (rule get_decl_name_frame)
      (simp_all add: ArgWriter_ctor_def fprintf_def SliceWriter_ctor_frame)
  have g: "file_out (snd (get_decl_name d ?w2)) = file_out ?w2"
    "slice_count (snd (get_decl_name d ?w2)) = slice_count ?w2"
    by (simp_all add: get_decl_name_file)
  show ?thesis
    using Some f g
    by (simp add: SliceWriter_dtor_def ArgWriter_dtor_def fprintf_function_def fprintf_def
        function_arg_def case_prod_beta ArgWriter_ctor_def SliceWriter_ctor_frame)
qed

text \<open>
  C6, as the code has it: for every record handed to the marker operation, other than
  a Parse Start, exactly one entry is written, with the name of the category's
  interval followed by a label in parentheses, the relative time stamp of the record,
  the phase of an instant and the arguments of the record; the entry count grows by
  one. For a Parse Start the marker operation writes nothing and leaves the writer as
  it is.
\<close>

theorem C6_marker_amended:
  \<open>(\<not> is_parse_start r \<longrightarrow>
      (\<exists>w'. WriteCallback (mismatch_call r) w = Some w'
         \<and> file_out w' =
             file_out w @ (if slice_count w > 0 then '','' else [])
             @ ''{"name":"'' @ marker_base r @ '' ('' @ marker_label r @ '')'' @ ''","ts":''
             @ fmt_ld ((record_time r - epoch w) sdiv 1000) @ ''.''
             @ fmt_03ld ((record_time r - epoch w) smod 1000)
             @ '',"ph":"i","pid":0,"tid":0'' @ marker_args r w @ ''}''
         \<and> slice_count w' = slice_count w + 1
         \<and> marker_label r \<noteq> []))
   \<and> (is_parse_start r \<longrightarrow> WriteCallback (mismatch_call r) w = Some w)\<close>
proof (cases r)
  case (Unit_record u)
  then show ?thesis
    by (simp add: write_marker_unit_def SliceWriter_dtor_def fprintf_def
        SliceWriter_ctor_instant SliceWriter_ctor_frame)
next
  case (Include_record i)
  then show ?thesis
    by (simp add: write_marker_include_def SliceWriter_dtor_def ArgWriter_dtor_def
        ArgWriter_ctor_def fprintf_def SliceWriter_ctor_instant SliceWriter_ctor_frame Let_def)
next
  case (Parse_record p)
  then show ?thesis
    by (cases "parse_kind (event p)")
      (simp_all add: write_marker_parse_def function_marker SliceWriter_ctor_instant Let_def)
next
  case (Pass_record p)
  then show ?thesis
    by (simp add: write_marker_pass_def function_marker SliceWriter_ctor_instant Let_def)
qed


theorem C6_marker_amended_witness:
  \<open>map_option file_out
      (WriteCallback (mismatch_call (Pass_record (pass_record 5 Pass_Start ''ipa'')))
         (TraceWriter_ctor 0 1))
     = Some ''[{"name":"ipa (start)","ts":0.005,"ph":"i","pid":0,"tid":0}''
   \<and> WriteCallback (mismatch_call (Parse_record (parse_record 5 Parse_Start example_decl)))
         (TraceWriter_ctor 0 1)
     = Some (TraceWriter_ctor 0 1)\<close>
proof -
  let ?r = "Pass_record (pass_record 5 Pass_Start ''ipa'')"
  let ?w = "TraceWriter_ctor 0 1"
  have h: "\<not> is_parse_start ?r"
    "is_parse_start (Parse_record (parse_record 5 Parse_Start example_decl))"
    by (simp_all add: parse_record_def)
  from C6_marker_amended [of ?r ?w] h(1) obtain w' where
    w': "WriteCallback (mismatch_call ?r) ?w = Some w'"
    and f: \<open>file_out w' =
             file_out ?w @ (if slice_count ?w > 0 then '','' else [])
             @ ''{"name":"'' @ marker_base ?r @ '' ('' @ marker_label ?r @ '')'' @ ''","ts":''
             @ fmt_ld ((record_time ?r - epoch ?w) sdiv 1000) @ ''.''
             @ fmt_03ld ((record_time ?r - epoch ?w) smod 1000)
             @ '',"ph":"i","pid":0,"tid":0'' @ marker_args ?r ?w @ ''}''\<close>
    by blast
  have v: "fmt_ld ((5::int) sdiv 1000) = ''0''" "fmt_03ld ((5::int) smod 1000) = ''005''"
    by code_simp+
  from f v have \<open>file_out w' = ''[{"name":"ipa (start)","ts":0.005,"ph":"i","pid":0,"tid":0}''\<close>
    by (simp add: TraceWriter_ctor_def pass_record_def function_arg_def)
  with w' C6_marker_amended [of "Parse_record (parse_record 5 Parse_Start example_decl)" ?w] h(2)
  show ?thesis by simp
qed

text \<open>
  C6 as the specification states it fails for a Parse Start: the marker operation
  returns the writer unchanged, and the document of a run whose only record is a
  Parse Start, left pending at shutdown, holds the entry of the dump alone.
\<close>

theorem C6_marker_counterexample:
  \<open>WriteCallback (Parse_call (on_mismatch (parse_record 5 Parse_Start example_decl)))
      (TraceWriter_ctor 0 1)
     = Some (TraceWriter_ctor 0 1)
   \<and> finish_callback [] [] [parse_record 5 Parse_Start example_decl] [] 1 8 9
     = Some ''[{"name":"plugin_dump","ts":0.003,"ph":"X","dur":0.001,"pid":0,"tid":0}]''\<close>
proof
  show "WriteCallback (Parse_call (on_mismatch (parse_record 5 Parse_Start example_decl)))
          (TraceWriter_ctor 0 1) = Some (TraceWriter_ctor 0 1)"
    by (simp add: write_marker_parse_def parse_record_def)
  show \<open>finish_callback [] [] [parse_record 5 Parse_Start example_decl] [] 1 8 9
     = Some ''[{"name":"plugin_dump","ts":0.003,"ph":"X","dur":0.001,"pid":0,"tid":0}]''\<close>
    by code_simp
qed

text \<open>
  C8 at a run without a single buffered record: the epoch is the largest time point,
  the relative time stamp of the dump entry is negative, the division and the
  remainder of C++ give a negative quotient and a negative remainder, and the entry
  carries \<open>-9223372036854775.-802\<close> as its time stamp, which is not a whole number of
  microseconds followed by a three-digit fraction.
\<close>

theorem C8_no_events_negative_timestamp:
  \<open>finish_callback [] [] [] [] 1 5 7
     = Some ''[{"name":"plugin_dump","ts":-9223372036854775.-802,"ph":"X","dur":0.002,"pid":0,"tid":0}]''
   \<and> finish_epoch [] [] [] [] = EventTimePoint_max
   \<and> (5 - EventTimePoint_max) sdiv 1000 = - 9223372036854775
   \<and> (5 - EventTimePoint_max) smod 1000 = - 802\<close>
proof (intro conjI)
  show \<open>finish_callback [] [] [] [] 1 5 7
     = Some ''[{"name":"plugin_dump","ts":-9223372036854775.-802,"ph":"X","dur":0.002,"pid":0,"tid":0}]''\<close>
    by (simp add: finish_callback_def finish_epoch_def front_or_max_def replay_def
        EventTracker_init_def finish_def finish_map_def finish_stack_def write_slice_custom_def
        SliceWriter_ctor_def SliceWriter_dtor_def TraceWriter_dtor_def TraceWriter_ctor_def
        fprintf_def Let_def EventTimePoint_max_def signed_divide_int_def signed_modulo_int_def
        fmt_ld_def fmt_03ld_def decimal_step decimal_small digit_char_def replicate_two)
  show "finish_epoch [] [] [] [] = EventTimePoint_max"
    by (simp add: finish_epoch_def front_or_max_def)
  show "(5 - EventTimePoint_max) sdiv 1000 = - 9223372036854775"
    by (simp add: EventTimePoint_max_def signed_divide_int_def)
  show "(5 - EventTimePoint_max) smod 1000 = - 802"
    by (simp add: EventTimePoint_max_def signed_modulo_int_def signed_divide_int_def)
qed

text \<open>
  C5 at an include file whose path holds a quote: the writer prints the path as it
  is, and a JSON reader that starts behind the opening quote of the value reads
  \<open>a\<close> and not the path; the same entry is part of the document of the run.
\<close>

theorem C5_include_path_not_escaped:
  \<open>file_out (write_slice_include (include_record 1000 Enter ''a"b.h'')
       (include_record 2500 Leave []) (TraceWriter_ctor 1000 1))
     = ''[{"name":"include","ts":0.000,"ph":"X","dur":1.500,"pid":0,"tid":0,"args":{"file":"''
       @ ''a"b.h"}}''
   \<and> json_string_body ''a"b.h"}}'' = Some (''a'', ''b.h"}}'')
   \<and> finish_callback [] [include_record 2500 Leave [], include_record 1000 Enter ''a"b.h''] [] []
         1 3000 3001
     = Some (''[{"name":"include","ts":0.000,"ph":"X","dur":1.500,"pid":0,"tid":0,''
         @ ''"args":{"file":"a"b.h"}},''
         @ ''{"name":"plugin_dump","ts":2.000,"ph":"X","dur":0.001,"pid":0,"tid":0}]'')\<close>
  by code_simp

lemma escape_quotes_append:
  "CHR 0x22 \<notin> set xs \<Longrightarrow> escape_quotes (xs @ ys) = xs @ escape_quotes ys"
  by (induction xs) auto

text \<open>
  The loop of \<open>get_decl_name\<close> is the escaping character by character, and a name
  without a backslash and without a control character is read back from what the
  writer prints for it.
\<close>

lemma takeWhile_split:
  "length (takeWhile P xs) < length xs \<Longrightarrow>
   \<exists>y rest. xs = takeWhile P xs @ y # rest \<and> \<not> P y
      \<and> drop (length (takeWhile P xs) + 1) xs = rest"
  by (induction xs) (auto split: if_splits)

lemma takeWhile_all:
  "\<not> length (takeWhile P xs) < length xs \<Longrightarrow> takeWhile P xs = xs"
  by (induction xs) (auto split: if_splits)

lemma escape_loop_eq: "escape_loop name escaped = escaped @ escape_quotes name"
proof (induction name escaped rule: escape_loop.induct)
  case (1 name escaped)
  let ?p = "\<lambda>c. c \<noteq> CHR 0x22"
  let ?len = "strcspn name [CHR 0x22]"
  have len: "?len = length (takeWhile ?p name)" by (simp add: strcspn_def)
  have tk: "take ?len name = takeWhile ?p name"
    by (simp add: len takeWhile_eq_take [symmetric])
  have notin: "CHR 0x22 \<notin> set (takeWhile ?p name)"
    by (auto dest: set_takeWhileD)
  show ?case
  proof (cases "?len < length name")
    case True
    with takeWhile_split [of ?p name] obtain y rest where
      split: "name = takeWhile ?p name @ y # rest" and y: "y = CHR 0x22"
      and dr: "drop (?len + 1) name = rest"
      unfolding len by auto
    have "escape_quotes name = escape_quotes (takeWhile ?p name @ y # rest)"
      using split by simp
    also have "\<dots> = takeWhile ?p name @ escape_quotes (y # rest)"
      by (rule escape_quotes_append [OF notin])
    finally have eq: "escape_quotes name
        = takeWhile ?p name @ [CHR 0x5C, CHR 0x22] @ escape_quotes rest"
      by (simp add: y)
    have "escape_loop name escaped
            = escape_loop (drop (?len + 1) name)
                (escaped @ take ?len name @ [CHR 0x5C, CHR 0x22])"
      using True by (subst escape_loop.simps) (simp add: Let_def)
    also have "\<dots> = (escaped @ take ?len name @ [CHR 0x5C, CHR 0x22])
                      @ escape_quotes (drop (?len + 1) name)"
      using True by (intro "1.IH") simp_all
    finally show ?thesis using dr by (simp add: tk eq)
  next
    case False
    then have all: "takeWhile ?p name = name"
      unfolding len by (rule takeWhile_all)
    have "CHR 0x22 \<notin> set name" using notin unfolding all .
    then have "escape_quotes name = name"
      using escape_quotes_append [of name "[]"] by simp
    moreover have "escape_loop name escaped = escaped @ take ?len name"
      using False by (subst escape_loop.simps) (simp add: Let_def)
    ultimately show ?thesis by (simp add: tk all)
  qed
qed

lemma json_string_body_escape_quotes:
  assumes "\<forall>c \<in> set name. c \<noteq> CHR 0x5C \<and> 32 \<le> (of_char c :: nat)"
  shows "json_string_body (escape_quotes name @ CHR 0x22 # rest) = Some (name, rest)"
  using assms by (induction name) (auto simp: json_escape_def)

lemma get_decl_name_round_trip:
  assumes "decl_name_cache w (DECL_PT_UID d) = None"
    and "\<forall>c \<in> set (decl_printable_name d (decl_verbosity w)).
           c \<noteq> CHR 0x5C \<and> 32 \<le> (of_char c :: nat)"
  shows "json_string_body (fst (get_decl_name d w) @ CHR 0x22 # rest)
           = Some (decl_printable_name d (decl_verbosity w), rest)"
  using assms
  by (simp add: get_decl_name_def Let_def escape_loop_eq json_string_body_escape_quotes)

section \<open>Properties of the dump\<close>








































end
